theory Spec2Isabelle
  imports Main "HOL-Library.Word"
begin

unbundle bit_operations_syntax

section \<open>UV exposure box controller: the data model\<close>

text \<open>
  The firmware of \<^verbatim>\<open>uvexposurebox.cpp\<close> runs on an 8-bit AVR: \<^verbatim>\<open>uint8_t\<close>,
  \<^verbatim>\<open>uint16_t\<close> and \<^verbatim>\<open>uint32_t\<close> are words of that width, arithmetic wraps.
\<close>

type_synonym u8 = "8 word"
type_synonym u16 = "16 word"
type_synonym u32 = "32 word"

text \<open>
  All state of the program is global: the two output ports, the globals of lines 94-99,
  the function-local statics \<^verbatim>\<open>digit\<close> (line 110) and \<^verbatim>\<open>lastButtonReadTime\<close>
  (line 154), and the EEPROM word at address 0. \<open>eeprom_writes\<close> counts the calls of
  \<^verbatim>\<open>eeprom_write_word\<close>, so that "nothing was written" can be said.
\<close>

record state =
  PORTB :: u8
  PORTD :: u8
  digit :: int
  lastButtonReadTime :: u32
  buttonState :: u8
  prevButtonState :: u8
  buttonPressed :: u8
  buttonReleased :: u8
  mode :: u8
  exposureTime :: u16
  eeprom :: u16
  eeprom_writes :: nat

text \<open>
  What the environment presents to one pass of a polling loop. \<open>now_ms\<close> is the value
  \<^verbatim>\<open>millis()\<close> returns at the head of the exposure loop (line 232; the other loops do
  not read it), \<open>ms_first\<close> and \<open>ms_second\<close> are the two values \<^verbatim>\<open>millis()\<close> returns
  inside \<^verbatim>\<open>updateButtons\<close> (lines 155 and 156), \<open>pina\<close> is the level of the input
  port \<^verbatim>\<open>PINA\<close> (buttons are low active).
\<close>

record sample =
  now_ms :: u32
  ms_first :: u32
  ms_second :: u32
  pina :: u8

definition BUTTON_START :: u8 where "BUTTON_START = 1"
definition BUTTON_MODE :: u8 where "BUTTON_MODE = 2"

definition SEG_A :: u8 where "SEG_A = 2"
definition SEG_B :: u8 where "SEG_B = 8"
definition SEG_C :: u8 where "SEG_C = 1"
definition SEG_D :: u8 where "SEG_D = 32"
definition SEG_E :: u8 where "SEG_E = 128"
definition SEG_F :: u8 where "SEG_F = 16"
definition SEG_G :: u8 where "SEG_G = 4"
definition SEG_DOTS :: u8 where "SEG_DOTS = 64"

text \<open>The segment table of lines 80-92, ten entries.\<close>

definition segdata :: "u8 list" where
  "segdata =
    [ (SEG_A OR SEG_B OR SEG_C OR SEG_D OR SEG_E OR SEG_F) XOR 191,
      (SEG_B OR SEG_C) XOR 191,
      (SEG_A OR SEG_B OR SEG_D OR SEG_E OR SEG_G) XOR 191,
      (SEG_A OR SEG_B OR SEG_C OR SEG_D OR SEG_G) XOR 191,
      (SEG_B OR SEG_C OR SEG_F OR SEG_G) XOR 191,
      (SEG_A OR SEG_C OR SEG_D OR SEG_F OR SEG_G) XOR 191,
      (SEG_A OR SEG_C OR SEG_D OR SEG_E OR SEG_F OR SEG_G) XOR 191,
      (SEG_A OR SEG_B OR SEG_C) XOR 191,
      (SEG_A OR SEG_B OR SEG_C OR SEG_D OR SEG_E OR SEG_F OR SEG_G) XOR 191,
      (SEG_A OR SEG_B OR SEG_C OR SEG_D OR SEG_F OR SEG_G) XOR 191 ]"

text \<open>The state after reset: every global and static is zero-initialised.\<close>

definition reset_state :: "u16 \<Rightarrow> state" where
  "reset_state stored =
     \<lparr> PORTB = 0, PORTD = 0, digit = 0, lastButtonReadTime = 0, buttonState = 0,
       prevButtonState = 0, buttonPressed = 0, buttonReleased = 0, mode = 0,
       exposureTime = 0, eeprom = stored, eeprom_writes = 0 \<rparr>"

section \<open>Mode indicator and display driver\<close>

definition updateLeds :: "state \<Rightarrow> state" where
  "updateLeds s =
     (let s1 = s\<lparr>PORTD := PORTD s AND NOT 24\<rparr>
      in s1\<lparr>PORTD := PORTD s1 OR push_bit 3 ((mode s1 + 1) AND 3)\<rparr>)"

text \<open>Lines 110-113: the multiplex cursor after \<^verbatim>\<open>digit++; if(digit == 3) digit = 0;\<close>.\<close>

definition next_digit :: "int \<Rightarrow> int" where
  "next_digit d = (if d + 1 = 3 then 0 else d + 1)"

text \<open>
  Lines 116-126: the value \<^verbatim>\<open>time\<close> holds when it indexes \<^verbatim>\<open>segdata\<close>, for the
  cursor value \<open>d\<close> already advanced.
\<close>

definition digit_value :: "int \<Rightarrow> u16 \<Rightarrow> u16" where
  "digit_value d time =
     (let mins = (ucast ((time div 60) mod 10) :: u8);
          secs = (ucast (time mod 60) :: u8);
          secs1 = secs div 10;
          secs2 = secs mod 10
      in if d = 0 then ucast mins else if d = 1 then ucast secs1 else ucast secs2)"

text \<open>
  \<^verbatim>\<open>updateDisplay\<close>, lines 108-136. A read past the end of \<^verbatim>\<open>segdata\<close> is the
  result \<open>None\<close>.
\<close>

definition updateDisplay :: "u16 \<Rightarrow> u8 \<Rightarrow> u8 \<Rightarrow> state \<Rightarrow> state option" where
  "updateDisplay time dots enableDigits s =
     (let d = next_digit (digit s);
          idx = unat (digit_value d time);
          portd = PORTD s AND NOT 7
      in if idx < length segdata
         then Some (s\<lparr> digit := d,
                       PORTB := (segdata ! idx) OR (dots AND SEG_DOTS),
                       PORTD := portd OR (push_bit (nat d) 1 AND enableDigits) \<rparr>)
         else None)"

section \<open>Configuration store\<close>

definition readConfig :: "state \<Rightarrow> state" where
  "readConfig s =
     (let s1 = s\<lparr>exposureTime := eeprom s\<rparr>
      in if exposureTime s1 \<ge> 600 then s1\<lparr>exposureTime := 30\<rparr> else s1)"

definition writeConfig :: "state \<Rightarrow> state" where
  "writeConfig s = s\<lparr>eeprom := exposureTime s, eeprom_writes := Suc (eeprom_writes s)\<rparr>"

section \<open>Buttons\<close>

text \<open>
  \<^verbatim>\<open>updateButtons\<close>, lines 150-165. The clock is read twice: the second reading
  decides whether the pins are sampled, the first one is stored as the time of the sample.
\<close>

definition updateButtons :: "sample \<Rightarrow> state \<Rightarrow> state" where
  "updateButtons i s =
     (let ms = ms_first i;
          s1 = (if ms_second i - lastButtonReadTime s \<ge> 5
                then s\<lparr>buttonState := (pina i AND 3) XOR 3, lastButtonReadTime := ms\<rparr>
                else s);
          s2 = s1\<lparr>buttonPressed := buttonState s1 AND (prevButtonState s1 XOR 255)\<rparr>;
          s3 = s2\<lparr>buttonReleased := (buttonState s2 XOR 255) AND prevButtonState s2\<rparr>
      in s3\<lparr>prevButtonState := buttonState s3\<rparr>)"

text \<open>
  \<^verbatim>\<open>waitUntilButtonsReleased\<close>, lines 167-174: a do-while loop, one sample per pass.
  \<open>None\<close>: the loop has not returned on the samples given (or the display refresh
  faulted); otherwise the state on return and the samples not consumed.
\<close>

fun waitUntilButtonsReleased :: "state \<Rightarrow> sample list \<Rightarrow> (state \<times> sample list) option" where
  "waitUntilButtonsReleased s [] = None"
| "waitUntilButtonsReleased s (i # ins) =
     (case updateDisplay 0 0 0 (updateButtons i s) of
        None \<Rightarrow> None
      | Some s' \<Rightarrow>
          if buttonState s' \<noteq> 0 then waitUntilButtonsReleased s' ins else Some (s', ins))"

text \<open>
  The debounced states a run of polls passes through: the state before the first call of
  \<^verbatim>\<open>updateButtons\<close> and the state after each call.
\<close>

fun poll_states :: "state \<Rightarrow> sample list \<Rightarrow> state list" where
  "poll_states s [] = [s]"
| "poll_states s (i # ins) = s # poll_states (updateButtons i s) ins"

text \<open>
  A clock that does not wrap during a run of polls: each reading is at least the one
  before it, starting from \<open>t\<close>.
\<close>

fun clock_ordered :: "u32 \<Rightarrow> sample list \<Rightarrow> bool" where
  "clock_ordered t [] = True"
| "clock_ordered t (i # ins) =
     (t \<le> ms_first i \<and> ms_first i \<le> ms_second i \<and> clock_ordered (ms_second i) ins)"

section \<open>Time setup\<close>

text \<open>
  The two editing loops of \<^verbatim>\<open>timeSetup\<close> (lines 183-195 and 201-213). Both are
  while loops on \<^verbatim>\<open>(buttonPressed & BUTTON_MODE) == 0\<close>; \<open>mins\<close>, \<open>secs\<close> and
  \<open>blink\<close> are the locals. \<^verbatim>\<open>(mins+1) % 10\<close> and \<^verbatim>\<open>(secs+5) % 60\<close> are computed
  in \<^verbatim>\<open>int\<close> and then narrowed.
\<close>

fun editMinutes :: "state \<Rightarrow> u8 \<Rightarrow> u16 \<Rightarrow> sample list \<Rightarrow> (state \<times> u8 \<times> sample list) option" where
  "editMinutes s mins blink [] =
     (if buttonPressed s AND BUTTON_MODE = 0 then None else Some (s, mins, []))"
| "editMinutes s mins blink (i # ins) =
     (if buttonPressed s AND BUTTON_MODE = 0
      then (let s1 = updateButtons i s;
                s2 = s1\<lparr>exposureTime := ucast mins * 60\<rparr>
            in case updateDisplay (exposureTime s2) 255 (if blink < 512 then 1 else 0) s2 of
                 None \<Rightarrow> None
               | Some s3 \<Rightarrow>
                   if buttonPressed s3 AND BUTTON_START \<noteq> 0
                   then editMinutes s3 (of_nat ((unat mins + 1) mod 10)) ((0 + 2) AND 1023) ins
                   else editMinutes s3 mins ((blink + 2) AND 1023) ins)
      else Some (s, mins, i # ins))"

fun editSeconds :: "state \<Rightarrow> u8 \<Rightarrow> u8 \<Rightarrow> u16 \<Rightarrow> sample list \<Rightarrow> (state \<times> u8 \<times> sample list) option" where
  "editSeconds s mins secs blink [] =
     (if buttonPressed s AND BUTTON_MODE = 0 then None else Some (s, secs, []))"
| "editSeconds s mins secs blink (i # ins) =
     (if buttonPressed s AND BUTTON_MODE = 0
      then (let s1 = updateButtons i s;
                s2 = s1\<lparr>exposureTime := ucast mins * 60 + ucast secs\<rparr>
            in case updateDisplay (exposureTime s2) 255 (if blink < 512 then 7 else 1) s2 of
                 None \<Rightarrow> None
               | Some s3 \<Rightarrow>
                   if buttonPressed s3 AND BUTTON_START \<noteq> 0
                   then editSeconds s3 mins (of_nat ((unat secs + 5) mod 60)) ((0 + 2) AND 1023) ins
                   else editSeconds s3 mins secs ((blink + 2) AND 1023) ins)
      else Some (s, secs, i # ins))"

text \<open>\<^verbatim>\<open>timeSetup\<close>, lines 176-217.\<close>

definition timeSetup :: "state \<Rightarrow> sample list \<Rightarrow> (state \<times> sample list) option" where
  "timeSetup s ins =
     (let mins = (ucast (exposureTime s div 60) :: u8);
          secs = (ucast (exposureTime s - ucast mins * 60) :: u8)
      in case editMinutes s mins 512 ins of
           None \<Rightarrow> None
         | Some (s1, mins1, ins1) \<Rightarrow>
             (case editSeconds (s1\<lparr>buttonPressed := 0\<rparr>) mins1 secs 0 ins1 of
                None \<Rightarrow> None
              | Some (s2, secs2, ins2) \<Rightarrow> waitUntilButtonsReleased (writeConfig s2) ins2))"

section \<open>Exposure\<close>

text \<open>
  Lines 232-235: the seconds left, from the configured duration, the clock value stored
  on entry and the clock value read at the head of the pass. The quotient is narrowed to
  16 bits before it is compared.
\<close>

definition remaining_time :: "u16 \<Rightarrow> u32 \<Rightarrow> u32 \<Rightarrow> u16" where
  "remaining_time duration entryTime now =
     (let elapsedTime = (ucast ((now - entryTime) div 1000) :: u16);
          time = duration - elapsedTime
      in if elapsedTime \<ge> duration then 0 else time)"

text \<open>The locals of \<^verbatim>\<open>exposure\<close> (lines 223-225) and the two breaks of its loop.\<close>

record exposure_locals =
  startTime :: u32
  startButtonDownTime :: u16
  blink :: u16

datatype loop_exit = Finished | Cancelled

type_synonym conf = "state \<times> exposure_locals"

text \<open>
  One pass of the loop body, lines 232-260. \<open>Some (c, None)\<close>: the pass ran to its end;
  \<open>Some (c, Some Finished)\<close>: the break of line 249; \<open>Some (c, Some Cancelled)\<close>: the
  break of line 258.
\<close>

definition exposure_cycle :: "sample \<Rightarrow> conf \<Rightarrow> (conf \<times> loop_exit option) option" where
  "exposure_cycle i c =
     (let s = fst c; l = snd c;
          time = remaining_time (exposureTime s) (startTime l) (now_ms i);
          s1 = updateButtons i s
      in case updateDisplay time (if blink l < 512 then 255 else 0)
                (if blink l < 512 then 255 else 0) s1 of
           None \<Rightarrow> None
         | Some s2 \<Rightarrow>
             (let l3 = (if time = 0 then l\<lparr>blink := (blink l + 2) AND 1023\<rparr> else l);
                  s3 = (if time = 0 then s2\<lparr>PORTD := PORTD s2 AND NOT 96\<rparr> else s2)
              in if time = 0 \<and> buttonState s3 AND BUTTON_START \<noteq> 0
                 then Some ((s3, l3), Some Finished)
                 else (let l4 = (if buttonState s3 AND BUTTON_START \<noteq> 0
                                 then l3\<lparr>startButtonDownTime := startButtonDownTime l3 + 1\<rparr>
                                 else l3\<lparr>startButtonDownTime := 0\<rparr>)
                       in if startButtonDownTime l4 = 500
                          then Some ((s3, l4), Some Cancelled)
                          else Some ((s3, l4), None))))"

text \<open>The loop of lines 230-261; \<open>None\<close> while it has not left on the samples given.\<close>

fun exposure_loop :: "conf \<Rightarrow> sample list \<Rightarrow> (conf \<times> loop_exit \<times> sample list) option" where
  "exposure_loop c [] = None"
| "exposure_loop c (i # ins) =
     (case exposure_cycle i c of
        None \<Rightarrow> None
      | Some (c', None) \<Rightarrow> exposure_loop c' ins
      | Some (c', Some e) \<Rightarrow> Some (c', e, ins))"

text \<open>
  Lines 223-228: the locals are initialised and the MOSFET lines selected by \<open>mode\<close> are
  switched on; \<open>t0\<close> is the value \<^verbatim>\<open>millis()\<close> returns at line 223.
\<close>

definition exposure_enter :: "u32 \<Rightarrow> state \<Rightarrow> conf" where
  "exposure_enter t0 s =
     (s\<lparr>PORTD := PORTD s OR push_bit 5 (mode s + 1)\<rparr>,
      \<lparr>startTime = t0, startButtonDownTime = 0, blink = 0\<rparr>)"

text \<open>\<^verbatim>\<open>exposure\<close>, lines 219-267.\<close>

definition exposure :: "u32 \<Rightarrow> state \<Rightarrow> sample list \<Rightarrow> (state \<times> sample list) option" where
  "exposure t0 s ins =
     (case waitUntilButtonsReleased s ins of
        None \<Rightarrow> None
      | Some (s1, ins1) \<Rightarrow>
          (case exposure_loop (exposure_enter t0 s1) ins1 of
             None \<Rightarrow> None
           | Some (c, e, ins2) \<Rightarrow>
               waitUntilButtonsReleased ((fst c)\<lparr>PORTD := PORTD (fst c) AND NOT 96\<rparr>) ins2))"

subsection \<open>What each pass of the exposure loop does\<close>

text \<open>
  A record of one executed pass: the configuration at its head, the seconds left it
  computed, whether it saw Start held after \<^verbatim>\<open>updateButtons\<close>, the configuration it
  ended with and the break it took, if any.
\<close>

record cycle =
  head :: conf
  remaining :: u16
  held :: bool
  after :: conf
  left :: "loop_exit option"

definition cycle_remaining :: "sample \<Rightarrow> conf \<Rightarrow> u16" where
  "cycle_remaining i c = remaining_time (exposureTime (fst c)) (startTime (snd c)) (now_ms i)"

definition cycle_held :: "sample \<Rightarrow> conf \<Rightarrow> bool" where
  "cycle_held i c = (buttonState (updateButtons i (fst c)) AND BUTTON_START \<noteq> 0)"

fun exposure_trace :: "conf \<Rightarrow> sample list \<Rightarrow> cycle list" where
  "exposure_trace c [] = []"
| "exposure_trace c (i # ins) =
     (case exposure_cycle i c of
        None \<Rightarrow> []
      | Some (c', e) \<Rightarrow>
          \<lparr>head = c, remaining = cycle_remaining i c, held = cycle_held i c,
            after = c', left = e\<rparr>
          # (if e = None then exposure_trace c' ins else []))"

text \<open>
  The number of consecutive passes, up to and including pass \<open>n\<close>, that saw Start held.
\<close>

definition hold_streak :: "cycle list \<Rightarrow> nat \<Rightarrow> nat" where
  "hold_streak tr n = length (takeWhile held (rev (take (Suc n) tr)))"

text \<open>The seconds left were non-zero on every pass up to and including pass \<open>n\<close>.\<close>

definition counting_down :: "cycle list \<Rightarrow> nat \<Rightarrow> bool" where
  "counting_down tr n = list_all (\<lambda>cy. remaining cy \<noteq> 0) (take (Suc n) tr)"

text \<open>The two MOSFET lines, bits 5 and 6 of port D.\<close>

definition mosfets :: "state \<Rightarrow> u8" where
  "mosfets s = PORTD s AND 96"

text \<open>The decimal-dot line, bit 6 of port B (lit when high).\<close>

definition dot_line :: "state \<Rightarrow> bool" where
  "dot_line s = (PORTB s AND SEG_DOTS \<noteq> 0)"

text \<open>
  A pass during which every clock reading is \<open>t\<close> milliseconds and the input port reads
  \<open>p\<close>: 3 is both buttons up, 2 is Start down, 1 is Mode down, 0 is both down.
\<close>

definition poll_at :: "nat \<Rightarrow> nat \<Rightarrow> sample" where
  "poll_at t p = \<lparr>now_ms = of_nat t, ms_first = of_nat t, ms_second = of_nat t, pina = of_nat p\<rparr>"

text \<open>The debounced state changed on poll \<open>k\<close> of a run of polls.\<close>

definition changed_at :: "state \<Rightarrow> sample list \<Rightarrow> nat \<Rightarrow> bool" where
  "changed_at s ins k =
     (buttonState (poll_states s ins ! Suc k) \<noteq> buttonState (poll_states s ins ! k))"

text \<open>
  The multiplex cursor \<^verbatim>\<open>digit\<close> starts at 0 and is only written by lines 111-113, so
  between calls it is 0, 1 or 2.
\<close>

definition digit_ok :: "state \<Rightarrow> bool" where
  "digit_ok s = (digit s = 0 \<or> digit s = 1 \<or> digit s = 2)"

text \<open>One of the three digit-enable lines, bits 0 to 2 of port D, is high.\<close>

definition display_on :: "state \<Rightarrow> bool" where
  "display_on s = (PORTD s AND 7 \<noteq> 0)"

text \<open>The number of passes before pass \<open>n\<close> on which the seconds left were 0.\<close>

definition zeros_before :: "cycle list \<Rightarrow> nat \<Rightarrow> nat" where
  "zeros_before tr n = length (filter (\<lambda>cy. remaining cy = 0) (take n tr))"

text \<open>Line 302 keeps \<^verbatim>\<open>mode\<close> at 0 (top), 1 (bottom) or 2 (both).\<close>

definition mode_ok :: "state \<Rightarrow> bool" where
  "mode_ok s = (mode s = 0 \<or> mode s = 1 \<or> mode s = 2)"

text \<open>
  The passes of the loop inside a call of \<^verbatim>\<open>exposure\<close>: none while the buttons are
  still being drained on entry.
\<close>

definition exposure_passes :: "u32 \<Rightarrow> state \<Rightarrow> sample list \<Rightarrow> cycle list" where
  "exposure_passes t0 s ins =
     (case waitUntilButtonsReleased s ins of
        None \<Rightarrow> []
      | Some (s1, ins1) \<Rightarrow> exposure_trace (exposure_enter t0 s1) ins1)"

subsection \<open>Concrete runs\<close>

text \<open>The state after reset once the configuration is loaded from a stored \<open>v\<close>.\<close>

definition loaded :: "u16 \<Rightarrow> state" where
  "loaded v = readConfig (reset_state v)"

text \<open>\<open>n\<close> passes 2 ms apart, from 10 ms on, with Start down and Mode up.\<close>

definition held_start_run :: "nat \<Rightarrow> sample list" where
  "held_start_run n = map (\<lambda>k. poll_at (10 + 2 * k) 2) [0..<n]"

text \<open>\<open>n\<close> passes 1 ms apart, from 10 ms on, with both buttons up.\<close>

definition idle_run :: "nat \<Rightarrow> sample list" where
  "idle_run n = map (\<lambda>k. poll_at (10 + k) 3) [0..<n]"

text \<open>
  A whole exposure of one second: the entry drain, a pass with a second left, a pass
  after the second has run out, a pass with Start down, and the exit drain.
\<close>

definition demo_run :: "sample list" where
  "demo_run = [poll_at 5 3, poll_at 10 3, poll_at 1010 3, poll_at 1020 2, poll_at 1030 3]"

text \<open>
  A pass during which the timer ticks between the two clock readings of
  \<^verbatim>\<open>updateButtons\<close>: the first is \<open>t\<close> milliseconds, the second \<open>t + 1\<close>.
\<close>

definition poll_across_tick :: "nat \<Rightarrow> nat \<Rightarrow> sample" where
  "poll_across_tick t p =
     \<lparr>now_ms = of_nat t, ms_first = of_nat t, ms_second = of_nat (Suc t), pina = of_nat p\<rparr>"


section \<open>Display driver: facts\<close>

lemma length_segdata: "length segdata = 10"
  by (simp add: segdata_def)

lemma narrow_small:
  fixes x :: u16
  assumes "unat x < 256"
  shows "unat (ucast x :: u8) = unat x"
  using assms by (simp add: unsigned_ucast_eq take_bit_nat_eq_self)

lemma widen_u8:
  fixes y :: u8
  shows "unat (ucast y :: u16) = unat y"
proof -
  have "unat y < 2 ^ 16"
    using unsigned_less [of y, where ?'a = nat] by simp
  then show ?thesis
    by (simp add: unsigned_ucast_eq take_bit_nat_eq_self)
qed

lemma unat_digit_value:
  "unat (digit_value d t) =
     (if d = 0 then unat t div 60 mod 10
      else if d = 1 then unat t mod 60 div 10 else unat t mod 60 mod 10)"
proof -
  have m0: "unat ((t div 60) mod 10) = unat t div 60 mod 10"
    by (simp add: unat_mod unat_div)
  have s0: "unat (t mod 60) = unat t mod 60"
    by (simp add: unat_mod)
  have m: "unat (ucast ((t div 60) mod 10) :: u8) = unat t div 60 mod 10"
    using m0 by (simp add: narrow_small)
  have s: "unat (ucast (t mod 60) :: u8) = unat t mod 60"
    using s0 by (simp add: narrow_small)
  show ?thesis
    by (simp add: digit_value_def Let_def widen_u8 unat_div unat_mod m s)
qed

lemma digit_value_less: "unat (digit_value d t) < 10"
proof -
  have "unat t mod 60 div 10 < 10" by arith
  then show ?thesis by (simp add: unat_digit_value)
qed

lemma segdata_dots_clear:
  assumes "i < 10"
  shows "(segdata ! i) AND SEG_DOTS = 0"
proof -
  from assms have "i \<in> {0, 1, 2, 3, 4, 5, 6, 7, 8, 9}" by auto
  then show ?thesis
    by (auto simp add: segdata_def SEG_A_def SEG_B_def SEG_C_def SEG_D_def SEG_E_def
        SEG_F_def SEG_G_def SEG_DOTS_def)
qed

lemma next_digit_ok: "digit_ok s \<Longrightarrow> next_digit (digit s) \<in> {0, 1, 2}"
  by (auto simp add: digit_ok_def next_digit_def)

lemma updateDisplay_Some:
  "updateDisplay time dots en s =
     Some (s\<lparr> digit := next_digit (digit s),
               PORTB := (segdata ! unat (digit_value (next_digit (digit s)) time))
                          OR (dots AND SEG_DOTS),
               PORTD := (PORTD s AND NOT 7) OR (push_bit (nat (next_digit (digit s))) 1 AND en) \<rparr>)"
  using digit_value_less [of "next_digit (digit s)" time]
  by (simp add: updateDisplay_def Let_def length_segdata)

lemma dot_line_updateDisplay:
  assumes "updateDisplay time dots en s = Some s'"
  shows "dot_line s' = (dots AND SEG_DOTS \<noteq> 0)"
proof -
  have "(segdata ! unat (digit_value (next_digit (digit s)) time)) AND SEG_DOTS = 0"
    by (rule segdata_dots_clear) (rule digit_value_less)
  with assms show ?thesis
    by (auto simp add: updateDisplay_Some dot_line_def bit.conj_disj_distrib2)
qed

section \<open>Claims about the display driver and the configuration store\<close>

text \<open>
  Claim C10. For every 16-bit time value, whatever the multiplex cursor, the value that
  indexes the segment table is a decimal digit: the minutes modulo 10, the tens of the
  seconds (at most 5) or the ones of the seconds; so the index is below the table's
  length of 10 and the refresh always returns a state.
\<close>

theorem updateDisplay_index_in_bounds:
  "unat (digit_value 0 time) = unat time div 60 mod 10
   \<and> unat (digit_value 1 time) = unat time mod 60 div 10
   \<and> unat (digit_value 1 time) \<le> 5
   \<and> unat (digit_value 2 time) = unat time mod 60 mod 10
   \<and> unat (digit_value d time) \<le> 9
   \<and> unat (digit_value (next_digit (digit s)) time) < length segdata
   \<and> (\<exists>s'. updateDisplay time dots enableDigits s = Some s')"
proof -
  have "unat time mod 60 div 10 \<le> 5" by arith
  moreover have "unat (digit_value d time) \<le> 9"
    using digit_value_less [of d time] by simp
  moreover have "unat (digit_value (next_digit (digit s)) time) < length segdata"
    using digit_value_less [of "next_digit (digit s)" time] by (simp add: length_segdata)
  ultimately show ?thesis
    by (simp add: unat_digit_value updateDisplay_Some)
qed

text \<open>
  Claim C8, as the code has it. The refresh always returns, and the decimal-dot line is
  lit exactly when bit 6 (\<open>SEG_DOTS\<close>) of the dots argument is set, whatever the other
  bits are. So 0xff lights the dots and 0 blanks them, the two values the callers pass.
\<close>

theorem updateDisplay_dots_follow_bit6:
  "(\<exists>s'. updateDisplay time dots enableDigits s = Some s'
        \<and> dot_line s' = (dots AND SEG_DOTS \<noteq> 0))
   \<and> (\<exists>s'. updateDisplay time 255 enableDigits s = Some s' \<and> dot_line s')
   \<and> (\<exists>s'. updateDisplay time 0 enableDigits s = Some s' \<and> \<not> dot_line s')"
proof -
  have a: "\<exists>s'. updateDisplay time x enableDigits s = Some s'
              \<and> dot_line s' = (x AND SEG_DOTS \<noteq> 0)" for x
  proof -
    obtain s' where s': "updateDisplay time x enableDigits s = Some s'"
      by (simp add: updateDisplay_Some)
    then show ?thesis
      using dot_line_updateDisplay [OF s'] by simp
  qed
  from a [of dots] a [of 255] a [of 0] show ?thesis
    by (simp add: SEG_DOTS_def)
qed

text \<open>
  Claim C8 as stated fails: the dots argument 64 is not the sentinel 0xff, yet the
  refresh lights the decimal-dot line.
\<close>

theorem updateDisplay_dots_counterexample:
  "map_option dot_line (updateDisplay 125 64 255 (reset_state 30)) = Some True"
  by (simp add: updateDisplay_Some dot_line_def reset_state_def SEG_DOTS_def
      bit.conj_disj_distrib2)

text \<open>
  Claim C4. Loading the configuration leaves the stored 16-bit value \<open>v\<close> as the
  duration when \<open>v \<le> 599\<close> and takes 30 otherwise; the EEPROM word keeps its value, no
  write is performed, and nothing but the in-memory duration changes.
\<close>

theorem readConfig_range_or_default:
  "exposureTime (readConfig s) = (if unat (eeprom s) \<le> 599 then eeprom s else 30)
   \<and> eeprom (readConfig s) = eeprom s
   \<and> eeprom_writes (readConfig s) = eeprom_writes s
   \<and> readConfig s = s\<lparr>exposureTime := exposureTime (readConfig s)\<rparr>"
proof -
  have "(600 \<le> eeprom s) = (\<not> unat (eeprom s) \<le> 599)"
    by (simp add: word_le_nat_alt) arith
  then show ?thesis
    by (simp add: readConfig_def Let_def)
qed

section \<open>Claims settled by running the code\<close>

text \<open>
  Claim C2 fails on the code. The elapsed seconds are narrowed to 16 bits before they are
  compared with the duration, so 65536 seconds after entry they read 0 again: with a
  duration of 30 seconds entered at clock value 0, the seconds left are 0 at 30000 ms
  and 30 again at 65536000 ms, where the claim gives max(30 - 65536, 0) = 0.
\<close>

theorem remaining_time_wraps_after_65536_seconds:
  "remaining_time 30 0 30000 = 0 \<and> remaining_time 30 0 65536000 = 30"
  by (simp add: remaining_time_def Let_def)

text \<open>
  Claim C5 fails on the code. Time setup is entered with 30 seconds configured and Mode
  held. The samples: both buttons up; Mode down (commits the minutes); both up; Start and
  Mode down in the same sample (one Start press in the seconds phase, and the commit);
  both up. The seconds loop stores the duration before it handles the Start press and
  then leaves, so 30 is persisted, where the claim gives 0 * 60 + (30 + 5) = 35.
\<close>

theorem timeSetup_drops_start_press_on_commit:
  "map_option (\<lambda>r. (eeprom (fst r), eeprom_writes (fst r)))
     (timeSetup ((readConfig (reset_state 30))\<lparr>buttonState := 2, prevButtonState := 2\<rparr>)
        [poll_at 5 3, poll_at 10 1, poll_at 15 3, poll_at 20 0, poll_at 25 3])
   = Some (30, 1)"
  by (simp add: timeSetup_def readConfig_def reset_state_def poll_at_def updateButtons_def
      updateDisplay_Some writeConfig_def Let_def BUTTON_MODE_def BUTTON_START_def)

section \<open>Buttons: facts\<close>

lemma xor_255: "(x :: u8) XOR 255 = NOT x"
proof -
  have "(255 :: u8) = - 1" by simp
  then show ?thesis by (simp only: bit.xor_one_right)
qed

lemma updateButtons_buttons:
  "prevButtonState (updateButtons i s) = buttonState (updateButtons i s)"
  "buttonPressed (updateButtons i s) = buttonState (updateButtons i s) AND NOT (prevButtonState s)"
  "buttonReleased (updateButtons i s) = NOT (buttonState (updateButtons i s)) AND prevButtonState s"
  by (simp_all add: updateButtons_def Let_def xor_255)

lemma updateButtons_sampling:
  "buttonState (updateButtons i s) =
     (if ms_second i - lastButtonReadTime s \<ge> 5 then (pina i AND 3) XOR 3 else buttonState s)"
  "lastButtonReadTime (updateButtons i s) =
     (if ms_second i - lastButtonReadTime s \<ge> 5 then ms_first i else lastButtonReadTime s)"
  by (simp_all add: updateButtons_def Let_def)

lemma updateButtons_frame:
  "PORTB (updateButtons i s) = PORTB s"
  "PORTD (updateButtons i s) = PORTD s"
  "digit (updateButtons i s) = digit s"
  "mode (updateButtons i s) = mode s"
  "exposureTime (updateButtons i s) = exposureTime s"
  "eeprom (updateButtons i s) = eeprom s"
  "eeprom_writes (updateButtons i s) = eeprom_writes s"
  by (simp_all add: updateButtons_def Let_def)

lemma edges_disjoint: "((b :: u8) AND NOT p) AND (NOT b AND p) = 0"
  by (simp add: bit_eq_iff bit_simps) 

lemma edges_iff_change: "((b :: u8) AND NOT p = 0 \<and> NOT b AND p = 0) = (b = p)"
  by (auto simp add: bit_eq_iff bit_simps)

lemma wait_released:
  assumes "waitUntilButtonsReleased s ins = Some (s', rest)"
  shows "buttonState s' = 0 \<and> prevButtonState s' = 0 \<and> buttonPressed s' = 0
         \<and> length rest < length ins
         \<and> (buttonReleased s' = 0 \<longleftrightarrow> prevButtonState s = 0 \<and> Suc (length rest) = length ins)"
  using assms
proof (induction ins arbitrary: s)
  case Nil
  then show ?case by simp
next
  case (Cons i ins)
  let ?s1 = "updateButtons i s"
  obtain s2 where s2: "updateDisplay 0 0 0 ?s1 = Some s2"
    and b: "buttonState s2 = buttonState ?s1" "prevButtonState s2 = prevButtonState ?s1"
       "buttonPressed s2 = buttonPressed ?s1" "buttonReleased s2 = buttonReleased ?s1"
    by (simp add: updateDisplay_Some)
  show ?case
  proof (cases "buttonState s2 = 0")
    case True
    with Cons.prems s2 have "s' = s2" "rest = ins" by simp_all
    with True b show ?thesis
      by (simp add: updateButtons_buttons)
  next
    case False
    with Cons.prems s2 have w: "waitUntilButtonsReleased s2 ins = Some (s', rest)" by simp
    from Cons.IH [OF w] False b show ?thesis
      by (auto simp add: updateButtons_buttons)
  qed
qed

lemma wait_frame:
  assumes "waitUntilButtonsReleased s ins = Some (s', rest)"
  shows "mosfets s' = mosfets s \<and> mode s' = mode s \<and> exposureTime s' = exposureTime s
         \<and> eeprom s' = eeprom s \<and> eeprom_writes s' = eeprom_writes s
         \<and> (digit_ok s \<longrightarrow> digit_ok s')"
  using assms
proof (induction ins arbitrary: s)
  case Nil
  then show ?case by simp
next
  case (Cons i ins)
  let ?s1 = "updateButtons i s"
  obtain s2 where s2: "updateDisplay 0 0 0 ?s1 = Some s2"
    by (simp add: updateDisplay_Some)
  have p: "PORTD s2 = PORTD s AND NOT 7"
    using s2 by (auto simp add: updateDisplay_Some updateButtons_frame)
  have "(PORTD s AND NOT 7) AND 96 = PORTD s AND 96"
    by (simp add: and.assoc)
  with p have m: "mosfets s2 = mosfets s" by (simp add: mosfets_def)
  have f: "mode s2 = mode s" "exposureTime s2 = exposureTime s" "eeprom s2 = eeprom s"
    "eeprom_writes s2 = eeprom_writes s" "digit s2 = next_digit (digit s)"
    using s2 by (auto simp add: updateDisplay_Some updateButtons_frame)
  have d: "digit_ok s2" if "digit_ok s"
    using next_digit_ok [OF that] f(5) by (auto simp add: digit_ok_def)
  show ?case
  proof (cases "buttonState s2 = 0")
    case True
    with Cons.prems s2 have "s' = s2" by simp
    with m f d show ?thesis by simp
  next
    case False
    with Cons.prems s2 have "waitUntilButtonsReleased s2 ins = Some (s', rest)" by simp
    from Cons.IH [OF this] m f d show ?thesis by simp
  qed
qed

section \<open>Claim about the button drain\<close>

text \<open>
  Claim C9, as the code has it. Whenever \<^verbatim>\<open>waitUntilButtonsReleased\<close> returns, the
  debounced state and the previous state read both buttons released and the pressed edge
  set is zero. The released edge set is not cleared: it is zero only when the previous
  state was already zero on entry and the first pass returned; whenever the routine had to
  wait, it returns with the edge of the final release still set.
\<close>

theorem waitUntilButtonsReleased_on_return:
  assumes "waitUntilButtonsReleased s ins = Some (s', rest)"
  shows "buttonState s' = 0 \<and> prevButtonState s' = 0 \<and> buttonPressed s' = 0
         \<and> (buttonReleased s' = 0 \<longleftrightarrow> prevButtonState s = 0 \<and> Suc (length rest) = length ins)"
  using wait_released [OF assms] by simp

theorem waitUntilButtonsReleased_on_return_witness:
  "\<exists>s'. waitUntilButtonsReleased (reset_state 30) [poll_at 5 3] = Some (s', [])
        \<and> buttonState s' = 0 \<and> prevButtonState s' = 0 \<and> buttonPressed s' = 0
        \<and> buttonReleased s' = 0"
proof -
  obtain s' where w: "waitUntilButtonsReleased (reset_state 30) [poll_at 5 3] = Some (s', [])"
    by (simp add: updateDisplay_Some updateButtons_def reset_state_def poll_at_def Let_def)
  from waitUntilButtonsReleased_on_return [OF w] w show ?thesis
    by (simp add: reset_state_def)
qed


text \<open>
  Claim C9 as stated fails. From reset, the first pass samples Start down and the second
  samples both buttons up: the routine returns with the released edge set holding Start.
\<close>

theorem waitUntilButtonsReleased_leaves_released_edge:
  "map_option (\<lambda>r. (buttonState (fst r), buttonPressed (fst r), buttonReleased (fst r)))
     (waitUntilButtonsReleased (reset_state 30) [poll_at 5 2, poll_at 10 3])
   = Some (0, 0, 1)"
  by (simp add: updateDisplay_Some updateButtons_def reset_state_def poll_at_def Let_def)


section \<open>Runs of polls\<close>

lemma length_poll_states: "length (poll_states s ins) = Suc (length ins)"
  by (induction ins arbitrary: s) simp_all

lemma poll_states_0: "poll_states s ins ! 0 = s"
  by (cases ins) simp_all

lemma poll_states_Suc:
  "k < length ins \<Longrightarrow>
     poll_states s ins ! Suc k = updateButtons (ins ! k) (poll_states s ins ! k)"
proof (induction ins arbitrary: s k)
  case Nil
  then show ?case by simp
next
  case (Cons i ins)
  show ?case
  proof (cases k)
    case 0
    then show ?thesis by (simp add: poll_states_0)
  next
    case (Suc m)
    with Cons.prems have "m < length ins" by simp
    from Cons.IH [OF this] Suc show ?thesis by simp
  qed
qed

lemma poll_states_prev:
  assumes "prevButtonState s = buttonState s" and "k \<le> length ins"
  shows "prevButtonState (poll_states s ins ! k) = buttonState (poll_states s ins ! k)"
proof (cases k)
  case 0
  with assms show ?thesis by (simp add: poll_states_0)
next
  case (Suc m)
  with assms have "m < length ins" by simp
  with Suc show ?thesis by (simp add: poll_states_Suc updateButtons_buttons)
qed

lemma clock_ordered_nth:
  assumes "clock_ordered t ins" and "k < length ins"
  shows "t \<le> ms_first (ins ! k) \<and> ms_first (ins ! k) \<le> ms_second (ins ! k)
         \<and> (\<forall>j<k. ms_second (ins ! j) \<le> ms_first (ins ! k))"
  using assms
proof (induction ins arbitrary: t k)
  case Nil
  then show ?case by simp
next
  case (Cons i ins)
  show ?case
  proof (cases k)
    case 0
    with Cons.prems show ?thesis by simp
  next
    case (Suc m)
    with Cons.prems have m: "m < length ins" and o: "clock_ordered (ms_second i) ins"
      and a: "t \<le> ms_first i" "ms_first i \<le> ms_second i" by simp_all
    from Cons.IH [OF o m] have ih: "ms_second i \<le> ms_first (ins ! m)"
      "ms_first (ins ! m) \<le> ms_second (ins ! m)"
      "\<forall>j<m. ms_second (ins ! j) \<le> ms_first (ins ! m)" by simp_all
    have "ms_second ((i # ins) ! j) \<le> ms_first (ins ! m)" if "j < Suc m" for j
      using that ih by (cases j) simp_all
    with a ih Suc show ?thesis by auto
  qed
qed

text \<open>The time of the last accepted sample never runs ahead of the clock.\<close>

lemma last_read_behind:
  assumes "clock_ordered (lastButtonReadTime s) ins" and "k < length ins"
  shows "lastButtonReadTime (poll_states s ins ! k) \<le> ms_first (ins ! k)"
  using assms(2)
proof (induction k)
  case 0
  with clock_ordered_nth [OF assms(1), of 0] show ?case by (simp add: poll_states_0)
next
  case (Suc k)
  then have k: "k < length ins" by simp
  from clock_ordered_nth [OF assms(1) Suc.prems]
  have "ms_second (ins ! k) \<le> ms_first (ins ! Suc k)" by simp
  moreover from clock_ordered_nth [OF assms(1) k]
  have "ms_first (ins ! k) \<le> ms_second (ins ! k)" by simp
  ultimately have "ms_first (ins ! k) \<le> ms_first (ins ! Suc k)" by simp
  moreover from Suc.IH [OF k] \<open>ms_first (ins ! k) \<le> ms_first (ins ! Suc k)\<close>
  have "lastButtonReadTime (poll_states s ins ! k) \<le> ms_first (ins ! Suc k)" by simp
  ultimately show ?case
    by (simp add: poll_states_Suc [OF k] updateButtons_sampling)
qed

lemma changed_at_sampled:
  assumes "k < length ins" and "changed_at s ins k"
  shows "5 \<le> ms_second (ins ! k) - lastButtonReadTime (poll_states s ins ! k)
         \<and> lastButtonReadTime (poll_states s ins ! Suc k) = ms_first (ins ! k)"
  using assms
  by (auto simp add: changed_at_def poll_states_Suc updateButtons_sampling split: if_splits)

lemma last_read_after_change:
  assumes o: "clock_ordered (lastButtonReadTime s) ins"
    and j: "changed_at s ins j" and jk: "j < k" and k: "k \<le> length ins"
  shows "ms_first (ins ! j) \<le> lastButtonReadTime (poll_states s ins ! k)"
  using jk k
proof (induction k)
  case 0
  then show ?case by simp
next
  case (Suc k)
  then have kl: "k < length ins" by simp
  show ?case
  proof (cases "j = k")
    case True
    with changed_at_sampled [OF kl] j show ?thesis by simp
  next
    case False
    with Suc have jk': "j < k" and "k \<le> length ins" by simp_all
    with Suc.IH have ih: "ms_first (ins ! j) \<le> lastButtonReadTime (poll_states s ins ! k)"
      by simp
    from clock_ordered_nth [OF o kl] jk'
    have "ms_second (ins ! j) \<le> ms_first (ins ! k)" by simp
    moreover from jk' kl have "j < length ins" by simp
    from clock_ordered_nth [OF o this]
    have "ms_first (ins ! j) \<le> ms_second (ins ! j)" by simp
    ultimately have "ms_first (ins ! j) \<le> ms_first (ins ! k)" by simp
    with ih show ?thesis
      by (simp add: poll_states_Suc [OF kl] updateButtons_sampling)
  qed
qed

lemma changes_five_apart:
  assumes o: "clock_ordered (lastButtonReadTime s) ins"
    and jk: "j < k" and k: "k < length ins"
    and cj: "changed_at s ins j" and ck: "changed_at s ins k"
  shows "unat (ms_first (ins ! j)) + 5 \<le> unat (ms_second (ins ! k))"
proof -
  let ?last = "lastButtonReadTime (poll_states s ins ! k)"
  from last_read_after_change [OF o cj jk] k
  have a: "unat (ms_first (ins ! j)) \<le> unat ?last" by (simp add: word_le_nat_alt)
  from last_read_behind [OF o k] clock_ordered_nth [OF o k]
  have b: "?last \<le> ms_second (ins ! k)" by (blast intro: order_trans)
  from changed_at_sampled [OF k ck]
  have "5 \<le> ms_second (ins ! k) - ?last" by simp
  then have "5 \<le> unat (ms_second (ins ! k) - ?last)" by (simp add: word_le_nat_alt)
  with b have "5 \<le> unat (ms_second (ins ! k)) - unat ?last"
    by (simp add: unat_sub)
  with a show ?thesis by simp
qed


text \<open>
  What does hold of every run of polls that starts with the previous state equal to the
  debounced state (as after reset and after every call). On every poll the pressed and
  the released edge set are disjoint; an edge set is non-zero exactly when the debounced
  state changed on that call; the state only changes when the second clock reading is at
  least 5 ms past the time stored at the last accepted sample, which then becomes the
  first reading of this call; and on a clock that does not wrap, two polls that both
  change the state are at least 5 ms apart only from the first reading of the earlier to
  the second reading of the later.
\<close>

lemma updateButtons_debounce:
  assumes p: "prevButtonState s = buttonState s" and k: "k < length ins"
  shows "buttonPressed (poll_states s ins ! Suc k) AND buttonReleased (poll_states s ins ! Suc k) = 0
    \<and> ((buttonPressed (poll_states s ins ! Suc k) \<noteq> 0
          \<or> buttonReleased (poll_states s ins ! Suc k) \<noteq> 0) \<longleftrightarrow> changed_at s ins k)
    \<and> (changed_at s ins k \<longrightarrow>
          5 \<le> ms_second (ins ! k) - lastButtonReadTime (poll_states s ins ! k)
          \<and> lastButtonReadTime (poll_states s ins ! Suc k) = ms_first (ins ! k))
    \<and> (clock_ordered (lastButtonReadTime s) ins \<and> j < k \<and> changed_at s ins j
          \<and> changed_at s ins k \<longrightarrow>
          unat (ms_first (ins ! j)) + 5 \<le> unat (ms_second (ins ! k)))"
proof -
  let ?b = "poll_states s ins ! k" and ?a = "poll_states s ins ! Suc k"
  have a: "?a = updateButtons (ins ! k) ?b"
    by (rule poll_states_Suc [OF k])
  from p k have pb: "prevButtonState ?b = buttonState ?b"
    by (simp add: poll_states_prev)
  have 1: "buttonPressed ?a AND buttonReleased ?a = 0"
    by (simp add: a updateButtons_buttons edges_disjoint)
  have 2: "(buttonPressed ?a \<noteq> 0 \<or> buttonReleased ?a \<noteq> 0) = changed_at s ins k"
    using edges_iff_change [of "buttonState ?a" "buttonState ?b"] pb
    by (auto simp add: changed_at_def a updateButtons_buttons)
  from 1 2 changed_at_sampled [OF k] changes_five_apart [OF _ _ k] show ?thesis
    by blast
qed

lemma updateButtons_debounce_witness:
  "changed_at (reset_state 30) [poll_at 5 2, poll_at 7 3, poll_at 10 3] 0
   \<and> \<not> changed_at (reset_state 30) [poll_at 5 2, poll_at 7 3, poll_at 10 3] 1
   \<and> changed_at (reset_state 30) [poll_at 5 2, poll_at 7 3, poll_at 10 3] 2
   \<and> clock_ordered 0 [poll_at 5 2, poll_at 7 3, poll_at 10 3]
   \<and> buttonReleased (poll_states (reset_state 30) [poll_at 5 2, poll_at 7 3, poll_at 10 3] ! 3) = 1
   \<and> buttonPressed (poll_states (reset_state 30) [poll_at 5 2, poll_at 7 3, poll_at 10 3] ! 3) = 0
   \<and> unat (ms_first ([poll_at 5 2, poll_at 7 3, poll_at 10 3] ! 0)) + 5
        \<le> unat (ms_second ([poll_at 5 2, poll_at 7 3, poll_at 10 3] ! 2))"
  using updateButtons_debounce [of "reset_state 30" 2 "[poll_at 5 2, poll_at 7 3, poll_at 10 3]" 0]
  by (simp add: changed_at_def reset_state_def poll_at_def updateButtons_def Let_def)

text \<open>
  Claim C6 fails on the code. Line 156 reads the clock a second time for the comparison
  while line 158 stores the first reading. From reset, a poll with readings 5 and 6 ms
  samples Start down, and a poll with readings 9 and 10 ms is accepted as well
  (10 - 5 = 5) and samples it up: the debounced state changes on both polls, 4 ms apart
  on the first readings and 4 ms apart on the second, where the claim and the comment of
  line 153 allow one change per 5 ms.
\<close>

theorem updateButtons_changes_4_ms_apart:
  "map buttonState (poll_states (reset_state 30) [poll_across_tick 5 2, poll_across_tick 9 3])
     = [0, 1, 0]
   \<and> changed_at (reset_state 30) [poll_across_tick 5 2, poll_across_tick 9 3] 0
   \<and> changed_at (reset_state 30) [poll_across_tick 5 2, poll_across_tick 9 3] 1
   \<and> map (unat \<circ> ms_first) [poll_across_tick 5 2, poll_across_tick 9 3] = [5, 9]
   \<and> map (unat \<circ> ms_second) [poll_across_tick 5 2, poll_across_tick 9 3] = [6, 10]"
  by (simp add: changed_at_def reset_state_def poll_across_tick_def updateButtons_def Let_def
      word_le_nat_alt)

section \<open>One pass of the exposure loop: facts\<close>

lemma digit_bit:
  assumes "d \<in> {0, 1, 2}"
  shows "(push_bit (nat d) 1 :: u8) AND 96 = 0" "(push_bit (nat d) 1 :: u8) AND 7 = push_bit (nat d) 1"
    "(push_bit (nat d) 1 :: u8) \<noteq> 0" "(push_bit (nat d) 1 :: u8) AND 255 = push_bit (nat d) 1"
  using assms by auto

lemma mosfets_display:
  assumes "digit_ok s"
  shows "(((PORTD s AND NOT 7) OR (push_bit (nat (next_digit (digit s))) 1 AND en)) AND 96 :: u8)
           = PORTD s AND 96"
proof -
  define b :: u8 where "b = push_bit (nat (next_digit (digit s))) 1"
  have z: "b AND 96 = 0"
    unfolding b_def by (rule digit_bit(1) [OF next_digit_ok [OF assms]])
  have "(b AND en) AND 96 = (b AND 96) AND en"
    by (simp add: ac_simps)
  with z have "(b AND en) AND 96 = 0" by simp
  moreover have "(PORTD s AND NOT 7) AND 96 = PORTD s AND 96"
    by (simp add: and.assoc)
  ultimately have "((PORTD s AND NOT 7) OR (b AND en)) AND 96 = PORTD s AND 96"
    by (simp add: bit.conj_disj_distrib2)
  then show ?thesis by (simp add: b_def)
qed

lemma enable_display:
  assumes "digit_ok s"
  shows "(((PORTD s AND NOT 7) OR (push_bit (nat (next_digit (digit s))) 1 AND 255)) AND 7 :: u8)
           \<noteq> 0"
    "(((PORTD s AND NOT 7) OR (push_bit (nat (next_digit (digit s))) 1 AND 0)) AND 7 :: u8) = 0"
proof -
  define b :: u8 where "b = push_bit (nat (next_digit (digit s))) 1"
  have b: "b AND 7 = b" "b \<noteq> 0" "b AND 255 = b"
    unfolding b_def by (rule digit_bit [OF next_digit_ok [OF assms]])+
  have n: "(PORTD s AND NOT 7) AND 7 = 0"
    by (simp add: and.assoc)
  have "((PORTD s AND NOT 7) OR (b AND 255)) AND 7 = b"
    using b n by (simp add: bit.conj_disj_distrib2)
  with b show "(((PORTD s AND NOT 7) OR (push_bit (nat (next_digit (digit s))) 1 AND 255)) AND 7 :: u8)
           \<noteq> 0"
    by (simp add: b_def)
  show "(((PORTD s AND NOT 7) OR (push_bit (nat (next_digit (digit s))) 1 AND 0)) AND 7 :: u8) = 0"
    using n by (simp add: bit.conj_disj_distrib2)
qed

text \<open>One pass, spelled out.\<close>

lemma exposure_cycle_Some:
  "\<exists>c' e. exposure_cycle i c = Some (c', e)"
  by (simp add: exposure_cycle_def updateDisplay_Some Let_def)

lemma exposure_cycle_facts:
  assumes "exposure_cycle i c = Some (c', e)"
  shows
    "e = (if cycle_remaining i c = 0 \<and> cycle_held i c then Some Finished
          else if (if cycle_held i c then startButtonDownTime (snd c) + 1 else 0) = 500
               then Some Cancelled else None)"
    "startButtonDownTime (snd c') =
       (if cycle_remaining i c = 0 \<and> cycle_held i c then startButtonDownTime (snd c)
        else if cycle_held i c then startButtonDownTime (snd c) + 1 else 0)"
    "blink (snd c') =
       (if cycle_remaining i c = 0 then (blink (snd c) + 2) AND 1023 else blink (snd c))"
    "startTime (snd c') = startTime (snd c)"
    "exposureTime (fst c') = exposureTime (fst c)"
    "mode (fst c') = mode (fst c)"
    "digit (fst c') = next_digit (digit (fst c))"
    "buttonState (fst c') = buttonState (updateButtons i (fst c))"
    "dot_line (fst c') = (blink (snd c) < 512)"
    "PORTD (fst c') =
       (if cycle_remaining i c = 0 then (\<lambda>p. p AND NOT 96) else (\<lambda>p. p))
         ((PORTD (fst c) AND NOT 7)
            OR (push_bit (nat (next_digit (digit (fst c)))) 1
                  AND (if blink (snd c) < 512 then 255 else 0)))"
  using assms
  by (auto simp add: exposure_cycle_def updateDisplay_Some Let_def cycle_remaining_def
      cycle_held_def updateButtons_frame dot_line_def SEG_DOTS_def
      segdata_dots_clear [OF digit_value_less, unfolded SEG_DOTS_def] bit.conj_disj_distrib2
      split: if_splits)

lemma exposure_cycle_portd:
  assumes cy: "exposure_cycle i c = Some (c', e)"
  shows "PORTD (fst c') =
       (if cycle_remaining i c = 0
        then ((PORTD (fst c) AND NOT 7)
            OR (push_bit (nat (next_digit (digit (fst c)))) 1
                  AND (if blink (snd c) < 512 then 255 else 0))) AND NOT 96
        else ((PORTD (fst c) AND NOT 7)
            OR (push_bit (nat (next_digit (digit (fst c)))) 1
                  AND (if blink (snd c) < 512 then 255 else 0))))"
  by (simp add: exposure_cycle_facts(10) [OF cy])

lemma clear_mosfets_keeps_digits: "((x :: u8) AND NOT 96) AND 7 = x AND 7"
  by (simp add: and.assoc)

lemma exposure_cycle_display_on:
  assumes cy: "exposure_cycle i c = Some (c', e)" and d: "digit_ok (fst c)"
  shows "display_on (fst c') = (blink (snd c) < 512)"
proof -
  define m :: u8 where "m = (if blink (snd c) < 512 then 255 else 0)"
  define x :: u8 where
    "x = (PORTD (fst c) AND NOT 7) OR (push_bit (nat (next_digit (digit (fst c)))) 1 AND m)"
  have p: "PORTD (fst c') = (if cycle_remaining i c = 0 then x AND NOT 96 else x)"
    unfolding x_def m_def by (rule exposure_cycle_portd [OF cy])
  have x7: "(x AND 7 \<noteq> 0) = (blink (snd c) < 512)"
  proof (cases "blink (snd c) < 512")
    case True
    then have m: "m = 255" by (simp only: m_def if_True)
    have "x AND 7 \<noteq> 0"
      unfolding x_def m by (rule enable_display(1) [OF d])
    with True show ?thesis by blast
  next
    case False
    then have m: "m = 0" by (simp only: m_def if_False)
    have "x AND 7 = 0"
      unfolding x_def m by (rule enable_display(2) [OF d])
    with False show ?thesis by blast
  qed
  have "PORTD (fst c') AND 7 = x AND 7"
  proof (cases "cycle_remaining i c = 0")
    case True
    with p have "PORTD (fst c') = x AND NOT 96" by simp
    then show ?thesis by (simp only: clear_mosfets_keeps_digits)
  next
    case False
    with p have "PORTD (fst c') = x" by simp
    then show ?thesis by (simp only:)
  qed
  with x7 show ?thesis
    by (simp only: display_on_def)
qed

section \<open>Traces of the exposure loop: facts\<close>

lemma exposure_trace_nth:
  assumes "n < length (exposure_trace c ins)"
  shows "n < length ins
     \<and> exposure_cycle (ins ! n) (head (exposure_trace c ins ! n))
           = Some (after (exposure_trace c ins ! n), left (exposure_trace c ins ! n))
     \<and> remaining (exposure_trace c ins ! n)
           = cycle_remaining (ins ! n) (head (exposure_trace c ins ! n))
     \<and> held (exposure_trace c ins ! n) = cycle_held (ins ! n) (head (exposure_trace c ins ! n))
     \<and> head (exposure_trace c ins ! 0) = c
     \<and> (\<forall>m. n = Suc m \<longrightarrow> head (exposure_trace c ins ! n) = after (exposure_trace c ins ! m)
                \<and> left (exposure_trace c ins ! m) = None)"
  using assms
proof (induction ins arbitrary: c n)
  case Nil
  then show ?case by simp
next
  case (Cons i ins)
  obtain c' e where ce: "exposure_cycle i c = Some (c', e)"
    using exposure_cycle_Some by blast
  show ?case
  proof (cases n)
    case 0
    with ce show ?thesis by simp
  next
    case (Suc m)
    with Cons.prems ce have e: "e = None" and m: "m < length (exposure_trace c' ins)"
      by (auto split: if_splits)
    from Cons.IH [OF m] ce e Suc show ?thesis
      by (cases m) auto
  qed
qed

lemma trace_length: "n < length (exposure_trace c ins) \<Longrightarrow> n < length ins"
  using exposure_trace_nth [of n c ins] by blast

lemma trace_cycle:
  "n < length (exposure_trace c ins) \<Longrightarrow>
     exposure_cycle (ins ! n) (head (exposure_trace c ins ! n))
       = Some (after (exposure_trace c ins ! n), left (exposure_trace c ins ! n))"
  using exposure_trace_nth [of n c ins] by blast

lemma trace_remaining:
  "n < length (exposure_trace c ins) \<Longrightarrow>
     remaining (exposure_trace c ins ! n)
       = cycle_remaining (ins ! n) (head (exposure_trace c ins ! n))"
  using exposure_trace_nth [of n c ins] by blast

lemma trace_held:
  "n < length (exposure_trace c ins) \<Longrightarrow>
     held (exposure_trace c ins ! n) = cycle_held (ins ! n) (head (exposure_trace c ins ! n))"
  using exposure_trace_nth [of n c ins] by blast

lemma trace_head_0:
  "0 < length (exposure_trace c ins) \<Longrightarrow> head (exposure_trace c ins ! 0) = c"
  using exposure_trace_nth [of 0 c ins] by blast

lemma trace_head_Suc:
  "Suc n < length (exposure_trace c ins) \<Longrightarrow>
     head (exposure_trace c ins ! Suc n) = after (exposure_trace c ins ! n)"
  using exposure_trace_nth [of "Suc n" c ins] by blast

lemma trace_left_None:
  "Suc n < length (exposure_trace c ins) \<Longrightarrow> left (exposure_trace c ins ! n) = None"
  using exposure_trace_nth [of "Suc n" c ins] by blast

lemma hold_streak_0:
  "0 < length tr \<Longrightarrow> hold_streak tr 0 = (if held (tr ! 0) then 1 else 0)"
  by (cases tr) (simp_all add: hold_streak_def)

lemma hold_streak_Suc:
  assumes "Suc n < length tr"
  shows "hold_streak tr (Suc n) = (if held (tr ! Suc n) then Suc (hold_streak tr n) else 0)"
proof -
  have "take (Suc (Suc n)) tr = take (Suc n) tr @ [tr ! Suc n]"
    using assms by (rule take_Suc_conv_app_nth)
  then show ?thesis by (simp add: hold_streak_def)
qed

lemma counting_down_0:
  "0 < length tr \<Longrightarrow> counting_down tr 0 = (remaining (tr ! 0) \<noteq> 0)"
  by (cases tr) (simp_all add: counting_down_def)

lemma counting_down_Suc:
  assumes "Suc n < length tr"
  shows "counting_down tr (Suc n) = (counting_down tr n \<and> remaining (tr ! Suc n) \<noteq> 0)"
proof -
  have "take (Suc (Suc n)) tr = take (Suc n) tr @ [tr ! Suc n]"
    using assms by (rule take_Suc_conv_app_nth)
  then show ?thesis by (simp add: counting_down_def)
qed

lemma zeros_before_Suc:
  assumes "n < length tr"
  shows "zeros_before tr (Suc n) = (if remaining (tr ! n) = 0 then Suc (zeros_before tr n)
                                     else zeros_before tr n)"
proof -
  have "take (Suc n) tr = take n tr @ [tr ! n]"
    using assms by (rule take_Suc_conv_app_nth)
  then show ?thesis by (simp add: zeros_before_def)
qed

lemma counting_down_zeros:
  assumes "n < length tr" and "counting_down tr n"
  shows "zeros_before tr (Suc n) = 0"
  using assms by (simp add: counting_down_def zeros_before_def list_all_iff filter_empty_conv)

text \<open>What stays fixed, and what the display cursor does, along a trace.\<close>

lemma trace_invariants:
  assumes "n < length (exposure_trace c ins)"
  shows "exposureTime (fst (head (exposure_trace c ins ! n))) = exposureTime (fst c)
     \<and> mode (fst (head (exposure_trace c ins ! n))) = mode (fst c)
     \<and> startTime (snd (head (exposure_trace c ins ! n))) = startTime (snd c)
     \<and> (digit_ok (fst c) \<longrightarrow> digit_ok (fst (head (exposure_trace c ins ! n))))"
  using assms
proof (induction n)
  case 0
  then show ?case by (simp add: trace_head_0)
next
  case (Suc n)
  then have n: "n < length (exposure_trace c ins)" by simp
  let ?tr = "exposure_trace c ins"
  note h = trace_head_Suc [OF Suc.prems]
  note cy = trace_cycle [OF n]
  have "digit_ok (fst (after (?tr ! n)))" if "digit_ok (fst (head (?tr ! n)))"
    using next_digit_ok [OF that] exposure_cycle_facts(7) [OF cy]
    by (auto simp add: digit_ok_def)
  with Suc.IH [OF n] exposure_cycle_facts(4,5,6) [OF cy] h show ?case
    by simp
qed

lemma unat_u16_500: "(unat (x :: u16) = 500) = (x = 500)"
proof
  assume "unat x = 500"
  then have "word_of_nat (unat x) = (word_of_nat 500 :: u16)" by simp
  then show "x = 500" by simp
next
  assume "x = 500"
  then show "unat x = 500" by simp
qed

lemma unat_inc_u16:
  assumes "unat (x :: u16) < 500"
  shows "unat (x + 1) = Suc (unat x)"
  using assms by (simp add: unat_word_ariths)

lemma trace_counter:
  assumes z: "startButtonDownTime (snd c) = 0" and "n < length (exposure_trace c ins)"
  shows "hold_streak (exposure_trace c ins) n \<le> 500
     \<and> (held (exposure_trace c ins ! n) \<or> hold_streak (exposure_trace c ins) n = 0)
     \<and> (left (exposure_trace c ins ! n) \<noteq> Some Finished \<longrightarrow>
          unat (startButtonDownTime (snd (after (exposure_trace c ins ! n))))
            = hold_streak (exposure_trace c ins) n)"
  using assms(2)
proof (induction n)
  case 0
  let ?tr = "exposure_trace c ins"
  from trace_cycle [OF 0] trace_held [OF 0] trace_head_0 [OF 0]
  have cy: "exposure_cycle (ins ! 0) c = Some (after (?tr ! 0), left (?tr ! 0))"
    and h: "held (?tr ! 0) = cycle_held (ins ! 0) c" by simp_all
  from 0 have s: "hold_streak ?tr 0 = (if held (?tr ! 0) then 1 else 0)"
    by (simp add: hold_streak_0)
  from exposure_cycle_facts(1,2) [OF cy] z h s show ?case
    by (auto split: if_splits)
next
  case (Suc n)
  let ?tr = "exposure_trace c ins"
  from Suc.prems have n: "n < length ?tr" by simp
  note cy = trace_cycle [OF Suc.prems] and h = trace_held [OF Suc.prems]
    and hd = trace_head_Suc [OF Suc.prems] and l = trace_left_None [OF Suc.prems]
    and cyn = trace_cycle [OF n]
  from Suc.IH [OF n] l
  have ih: "unat (startButtonDownTime (snd (after (?tr ! n)))) = hold_streak ?tr n"
    "hold_streak ?tr n \<le> 500" by simp_all
  from exposure_cycle_facts(1,2) [OF cyn] l
  have "startButtonDownTime (snd (after (?tr ! n))) \<noteq> 500"
    by (auto split: if_splits)
  with ih have lt: "unat (startButtonDownTime (snd (after (?tr ! n)))) < 500"
    by (simp add: unat_u16_500 [symmetric])
  have s: "hold_streak ?tr (Suc n) = (if held (?tr ! Suc n) then Suc (hold_streak ?tr n) else 0)"
    by (rule hold_streak_Suc [OF Suc.prems])
  from exposure_cycle_facts(1,2) [OF cy] h s hd ih lt unat_inc_u16 [OF lt] show ?case
    by (auto split: if_splits)
qed

lemma trace_mosfets:
  assumes d: "digit_ok (fst c)" and "n < length (exposure_trace c ins)"
  shows "mosfets (fst (after (exposure_trace c ins ! n)))
           = (if counting_down (exposure_trace c ins) n then mosfets (fst c) else 0)"
  using assms(2)
proof (induction n)
  case 0
  let ?tr = "exposure_trace c ins"
  from trace_cycle [OF 0] trace_remaining [OF 0] trace_head_0 [OF 0]
  have cy: "exposure_cycle (ins ! 0) c = Some (after (?tr ! 0), left (?tr ! 0))"
    and r: "remaining (?tr ! 0) = cycle_remaining (ins ! 0) c" by simp_all
  from 0 have cd: "counting_down ?tr 0 = (remaining (?tr ! 0) \<noteq> 0)"
    by (simp add: counting_down_0)
  from exposure_cycle_facts(10) [OF cy] r cd mosfets_display [OF d] show ?case
    by (simp add: mosfets_def and.assoc)
next
  case (Suc n)
  let ?tr = "exposure_trace c ins"
  from Suc.prems have n: "n < length ?tr" by simp
  note cy = trace_cycle [OF Suc.prems] and r = trace_remaining [OF Suc.prems]
    and hd = trace_head_Suc [OF Suc.prems]
  from trace_invariants [OF Suc.prems] d have dk: "digit_ok (fst (head (?tr ! Suc n)))"
    by simp
  have cd: "counting_down ?tr (Suc n) = (counting_down ?tr n \<and> remaining (?tr ! Suc n) \<noteq> 0)"
    by (rule counting_down_Suc [OF Suc.prems])
  from exposure_cycle_facts(10) [OF cy] r cd mosfets_display [OF dk] Suc.IH [OF n] hd show ?case
    by (simp add: mosfets_def and.assoc)
qed

lemma blink_step:
  fixes b :: u16
  assumes "unat b = 2 * z mod 1024"
  shows "unat ((b + 2) AND 1023) = 2 * Suc z mod 1024"
proof -
  have "(b + 2) AND 1023 = (b + 2) AND mask 10" by (simp add: mask_eq_exp_minus_1)
  also have "unat \<dots> = unat (b + 2) mod 2 ^ 10"
    by (simp add: unsigned_and_eq unsigned_take_bit_eq take_bit_eq_mod unat_mod
        flip: take_bit_eq_mask)
  also have "\<dots> = (unat b + 2) mod 1024"
    by (simp add: unat_word_ariths mod_mod_cancel)
  also have "\<dots> = (2 * z mod 1024 + 2) mod 1024"
    by (simp only: assms)
  also have "\<dots> = (2 * z + 2) mod 1024"
    by (rule mod_add_left_eq)
  also have "2 * z + 2 = 2 * Suc z"
    by simp
  finally show ?thesis .
qed

lemma trace_blink:
  assumes z: "blink (snd c) = 0" and "n < length (exposure_trace c ins)"
  shows "unat (blink (snd (head (exposure_trace c ins ! n))))
           = 2 * zeros_before (exposure_trace c ins) n mod 1024"
  using assms(2)
proof (induction n)
  case 0
  with trace_head_0 [OF 0] z show ?case by (simp add: zeros_before_def)
next
  case (Suc n)
  let ?tr = "exposure_trace c ins"
  from Suc.prems have n: "n < length ?tr" by simp
  note hd = trace_head_Suc [OF Suc.prems] and cy = trace_cycle [OF n]
    and r = trace_remaining [OF n]
  from exposure_cycle_facts(3) [OF cy] r hd Suc.IH [OF n] blink_step [OF Suc.IH [OF n]]
  show ?case
    by (simp add: zeros_before_Suc [OF n])
qed

lemma trace_display:
  assumes d: "digit_ok (fst c)" and n: "n < length (exposure_trace c ins)"
  shows "dot_line (fst (after (exposure_trace c ins ! n)))
           = (blink (snd (head (exposure_trace c ins ! n))) < 512)"
    "display_on (fst (after (exposure_trace c ins ! n)))
           = (blink (snd (head (exposure_trace c ins ! n))) < 512)"
    "blink (snd (after (exposure_trace c ins ! n)))
           = (if remaining (exposure_trace c ins ! n) = 0
              then (blink (snd (head (exposure_trace c ins ! n))) + 2) AND 1023
              else blink (snd (head (exposure_trace c ins ! n))))"
proof -
  let ?tr = "exposure_trace c ins"
  note cy = trace_cycle [OF n] and r = trace_remaining [OF n]
  from trace_invariants [OF n] d have dk: "digit_ok (fst (head (?tr ! n)))" by simp
  show "dot_line (fst (after (?tr ! n))) = (blink (snd (head (?tr ! n))) < 512)"
    by (rule exposure_cycle_facts(9) [OF cy])
  show "blink (snd (after (?tr ! n)))
           = (if remaining (?tr ! n) = 0 then (blink (snd (head (?tr ! n))) + 2) AND 1023
              else blink (snd (head (?tr ! n))))"
    using exposure_cycle_facts(3) [OF cy] r by simp
  show "display_on (fst (after (?tr ! n))) = (blink (snd (head (?tr ! n))) < 512)"
    by (rule exposure_cycle_display_on [OF cy dk])
qed

section \<open>The exposure loop: what its passes establish\<close>

lemma exposure_enter_mosfets:
  assumes "mode_ok s" and "mosfets s = 0"
  shows "mosfets (fst (exposure_enter t0 s))
           = (if mode s = 0 then 32 else if mode s = 1 then 64 else 96)"
proof -
  have "mosfets (fst (exposure_enter t0 s)) = mosfets s OR (push_bit 5 (mode s + 1) AND 96)"
    by (simp add: exposure_enter_def mosfets_def bit.conj_disj_distrib2)
  with assms show ?thesis
    by (auto simp add: mode_ok_def)
qed

lemma exposure_loop_trace:
  assumes "exposure_loop c ins = Some (c', e, rest)"
  shows "exposure_trace c ins \<noteq> []
     \<and> after (last (exposure_trace c ins)) = c'
     \<and> left (last (exposure_trace c ins)) = Some e
     \<and> length (exposure_trace c ins) + length rest = length ins"
  using assms
proof (induction ins arbitrary: c)
  case Nil
  then show ?case by simp
next
  case (Cons i ins)
  obtain c1 e1 where ce: "exposure_cycle i c = Some (c1, e1)"
    using exposure_cycle_Some by blast
  show ?case
  proof (cases e1)
    case None
    with Cons.prems ce have "exposure_loop c1 ins = Some (c', e, rest)" by simp
    from Cons.IH [OF this] ce None show ?thesis by simp
  next
    case (Some x)
    with Cons.prems ce show ?thesis by simp
  qed
qed

lemma clear_mosfets: "((p :: u8) AND NOT 96) AND 96 = 0"
  by (simp add: and.assoc)

lemma trace_cancel:
  assumes z: "startButtonDownTime (snd c) = 0" and n: "n < length (exposure_trace c ins)"
  shows "(left (exposure_trace c ins ! n) = Some Cancelled
            \<longleftrightarrow> hold_streak (exposure_trace c ins) n = 500
                \<and> remaining (exposure_trace c ins ! n) \<noteq> 0)
     \<and> (left (exposure_trace c ins ! n) = Some Finished
            \<longleftrightarrow> held (exposure_trace c ins ! n)
                \<and> remaining (exposure_trace c ins ! n) = 0)
     \<and> (left (exposure_trace c ins ! n) \<noteq> Some Finished \<longrightarrow>
            unat (startButtonDownTime (snd (after (exposure_trace c ins ! n))))
              = hold_streak (exposure_trace c ins) n)
     \<and> (\<not> held (exposure_trace c ins ! n) \<longrightarrow>
            hold_streak (exposure_trace c ins) n = 0
            \<and> startButtonDownTime (snd (after (exposure_trace c ins ! n))) = 0)
     \<and> hold_streak (exposure_trace c ins) n \<le> 500"
proof -
  let ?tr = "exposure_trace c ins"
  note tc = trace_counter [OF z n]
  note cy = trace_cycle [OF n] and h = trace_held [OF n] and r = trace_remaining [OF n]
  note e = exposure_cycle_facts(1) [OF cy] and k = exposure_cycle_facts(2) [OF cy]
  have fin: "(left (?tr ! n) = Some Finished) = (held (?tr ! n) \<and> remaining (?tr ! n) = 0)"
    using e h r by (auto split: if_splits)
  have cnt: "unat (startButtonDownTime (snd (after (?tr ! n)))) = hold_streak ?tr n"
    if "left (?tr ! n) \<noteq> Some Finished"
    using tc that by blast
  have can: "(left (?tr ! n) = Some Cancelled)
               = (hold_streak ?tr n = 500 \<and> remaining (?tr ! n) \<noteq> 0)"
  proof
    assume c: "left (?tr ! n) = Some Cancelled"
    then have nf: "left (?tr ! n) \<noteq> Some Finished" by simp
    from c e k have "startButtonDownTime (snd (after (?tr ! n))) = 500"
      by (auto split: if_splits)
    with cnt [OF nf] have s: "hold_streak ?tr n = 500" by simp
    with tc have "held (?tr ! n)" by auto
    with nf fin s show "hold_streak ?tr n = 500 \<and> remaining (?tr ! n) \<noteq> 0" by simp
  next
    assume a: "hold_streak ?tr n = 500 \<and> remaining (?tr ! n) \<noteq> 0"
    with fin have nf: "left (?tr ! n) \<noteq> Some Finished" by simp
    from a tc have hd: "held (?tr ! n)" by auto
    from cnt [OF nf] a have "startButtonDownTime (snd (after (?tr ! n))) = 500"
      by (simp add: unat_u16_500 [symmetric])
    with e k hd h r a show "left (?tr ! n) = Some Cancelled"
      by (auto split: if_splits)
  qed
  have rel: "hold_streak ?tr n = 0 \<and> startButtonDownTime (snd (after (?tr ! n))) = 0"
    if "\<not> held (?tr ! n)"
    using that tc k h by (auto split: if_splits)
  from fin cnt can rel tc show ?thesis by blast
qed

lemma trace_blink_facts:
  assumes z: "blink (snd c) = 0" and dk: "digit_ok (fst c)"
    and n: "n < length (exposure_trace c ins)"
  shows "unat (blink (snd (head (exposure_trace c ins ! n))))
           = 2 * zeros_before (exposure_trace c ins) n mod 1024
     \<and> dot_line (fst (after (exposure_trace c ins ! n)))
           = (2 * zeros_before (exposure_trace c ins) n mod 1024 < 512)
     \<and> display_on (fst (after (exposure_trace c ins ! n)))
           = (2 * zeros_before (exposure_trace c ins) n mod 1024 < 512)
     \<and> (counting_down (exposure_trace c ins) n \<longrightarrow>
           zeros_before (exposure_trace c ins) n = 0
           \<and> dot_line (fst (after (exposure_trace c ins ! n)))
           \<and> display_on (fst (after (exposure_trace c ins ! n)))
           \<and> blink (snd (after (exposure_trace c ins ! n))) = 0)"
proof -
  let ?tr = "exposure_trace c ins"
  let ?b = "blink (snd (head (?tr ! n)))"
  note b = trace_blink [OF z n]
  have lt: "(?b < 512) = (2 * zeros_before ?tr n mod 1024 < 512)"
    using b by (simp add: word_less_nat_alt)
  note dl = trace_display(1) [OF dk n] and dn = trace_display(2) [OF dk n]
    and ba = trace_display(3) [OF dk n]
  have cd: "zeros_before ?tr n = 0 \<and> dot_line (fst (after (?tr ! n)))
            \<and> display_on (fst (after (?tr ! n))) \<and> blink (snd (after (?tr ! n))) = 0"
    if c: "counting_down ?tr n"
  proof -
    from counting_down_zeros [OF n c] have zs: "zeros_before ?tr (Suc n) = 0" .
    with zeros_before_Suc [OF n] have z0: "zeros_before ?tr n = 0" and r: "remaining (?tr ! n) \<noteq> 0"
      by (auto split: if_splits)
    from b z0 have "unat ?b = 0" by simp
    then have b0: "?b = 0" by (simp add: unat_eq_0)
    with dl dn ba r z0 show ?thesis by simp
  qed
  from b lt dl dn cd show ?thesis by blast
qed

section \<open>Long runs of the exposure loop\<close>

lemma remaining_time_early:
  assumes "entry \<le> now" and "unat now - unat entry < 1000"
  shows "remaining_time d entry now = d"
proof -
  from assms have "unat (now - entry) < 1000"
    by (simp add: unat_sub)
  then have "unat ((now - entry) div 1000) = 0"
    by (simp add: unat_div)
  then have "(now - entry) div 1000 = 0"
    by (simp add: unat_eq_0)
  then show ?thesis
    by (simp add: remaining_time_def Let_def)
qed

lemma start_bit: "((b :: u8) = 0 \<or> b = 1) \<Longrightarrow> (b AND BUTTON_START \<noteq> 0) = (b = 1)"
  by (auto simp add: BUTTON_START_def)

text \<open>
  A stretch of passes on which the buttons read the same and the seconds left are not 0:
  none of them leaves the loop, provided a held Start stays short of 500 passes.
\<close>

lemma steady_run:
  assumes "buttonState (fst c) = b
           \<or> (ins \<noteq> [] \<and> 5 \<le> ms_second (hd ins) - lastButtonReadTime (fst c))"
    and "\<forall>i\<in>set ins. (pina i AND 3) XOR 3 = b \<and> cycle_remaining i c \<noteq> 0"
    and "b = 0 \<or> (b = 1 \<and> unat (startButtonDownTime (snd c)) + length ins < 500)"
  shows "\<exists>tr c'. exposure_trace c (ins @ rest) = tr @ exposure_trace c' rest
           \<and> length tr = length ins
           \<and> list_all (\<lambda>cy. held cy = (b = 1) \<and> remaining cy \<noteq> 0 \<and> left cy = None) tr
           \<and> (ins \<noteq> [] \<longrightarrow> buttonState (fst c') = b)
           \<and> (ins = [] \<longrightarrow> c' = c)
           \<and> exposureTime (fst c') = exposureTime (fst c)
           \<and> startTime (snd c') = startTime (snd c)
           \<and> (b = 1 \<longrightarrow> unat (startButtonDownTime (snd c'))
                            = unat (startButtonDownTime (snd c)) + length ins)"
  using assms
proof (induction ins arbitrary: c)
  case Nil
  show ?case
    by (rule exI [of _ "[]"], rule exI [of _ c]) simp
next
  case (Cons i ins)
  obtain c1 e1 where ce: "exposure_cycle i c = Some (c1, e1)"
    using exposure_cycle_Some by blast
  note f = exposure_cycle_facts [OF ce]
  from Cons.prems(2) have pi: "(pina i AND 3) XOR 3 = b" and ri: "cycle_remaining i c \<noteq> 0"
    by simp_all
  from Cons.prems(3) have b01: "b = 0 \<or> b = 1" by blast
  from Cons.prems(1) pi have bs: "buttonState (updateButtons i (fst c)) = b"
    by (auto simp add: updateButtons_sampling)
  with b01 have h: "cycle_held i c = (b = 1)"
    by (simp add: cycle_held_def start_bit)
  have cnt: "unat (startButtonDownTime (snd c) + 1) = Suc (unat (startButtonDownTime (snd c)))"
    and n500: "startButtonDownTime (snd c) + 1 \<noteq> 500" if "b = 1"
  proof -
    from that Cons.prems(3) have lt: "unat (startButtonDownTime (snd c)) < 499" by simp
    then show "unat (startButtonDownTime (snd c) + 1) = Suc (unat (startButtonDownTime (snd c)))"
      by (simp add: unat_inc_u16)
    with lt show "startButtonDownTime (snd c) + 1 \<noteq> 500"
      by (auto simp add: unat_u16_500 [symmetric])
  qed
  from f(1) ri h n500 have e1: "e1 = None"
    by (auto split: if_splits)
  have k1: "b = 1 \<longrightarrow> unat (startButtonDownTime (snd c1)) = Suc (unat (startButtonDownTime (snd c)))"
    using f(2) ri h cnt by simp
  have r1: "cycle_remaining j c1 = cycle_remaining j c" for j
    using f(4,5) by (simp add: cycle_remaining_def)
  have p1: "buttonState (fst c1) = b
           \<or> (ins \<noteq> [] \<and> 5 \<le> ms_second (hd ins) - lastButtonReadTime (fst c1))"
    using f(8) bs by simp
  have p2: "\<forall>j\<in>set ins. (pina j AND 3) XOR 3 = b \<and> cycle_remaining j c1 \<noteq> 0"
    using Cons.prems(2) r1 by simp
  have p3: "b = 0 \<or> (b = 1 \<and> unat (startButtonDownTime (snd c1)) + length ins < 500)"
    using Cons.prems(3) k1 by auto
  from Cons.IH [OF p1 p2 p3] obtain tr c' where
    ih: "exposure_trace c1 (ins @ rest) = tr @ exposure_trace c' rest"
      "length tr = length ins"
      "list_all (\<lambda>cy. held cy = (b = 1) \<and> remaining cy \<noteq> 0 \<and> left cy = None) tr"
      "ins \<noteq> [] \<longrightarrow> buttonState (fst c') = b" "ins = [] \<longrightarrow> c' = c1"
      "exposureTime (fst c') = exposureTime (fst c1)"
      "startTime (snd c') = startTime (snd c1)"
      "b = 1 \<longrightarrow> unat (startButtonDownTime (snd c'))
                            = unat (startButtonDownTime (snd c1)) + length ins"
    by blast
  let ?cy = "\<lparr>head = c, remaining = cycle_remaining i c, held = cycle_held i c,
              after = c1, left = e1\<rparr>"
  have t: "exposure_trace c ((i # ins) @ rest) = (?cy # tr) @ exposure_trace c' rest"
    using ce e1 ih(1) by simp
  have bc: "buttonState (fst c') = b"
    using ih(4,5) f(8) bs by (cases "ins = []") simp_all
  show ?case
    apply (rule exI [of _ "?cy # tr"], rule exI [of _ c'])
    using t ih bc f(4,5) k1 ri h e1 by simp
qed

lemma entry_drain:
  "\<exists>s1. waitUntilButtonsReleased (loaded v) (poll_at 5 3 # ins) = Some (s1, ins)
        \<and> buttonState s1 = 0 \<and> lastButtonReadTime s1 = 5
        \<and> exposureTime s1 = exposureTime (loaded v) \<and> digit_ok s1"
  by (simp add: loaded_def readConfig_def reset_state_def poll_at_def updateButtons_def
      updateDisplay_Some Let_def digit_ok_def next_digit_def)

lemma passes_after_drain:
  "\<exists>s1. exposure_passes t0 (loaded v) (poll_at 5 3 # ins) = exposure_trace (exposure_enter t0 s1) ins
        \<and> buttonState s1 = 0 \<and> lastButtonReadTime s1 = 5
        \<and> exposureTime s1 = exposureTime (loaded v) \<and> digit_ok s1"
proof -
  from entry_drain [of v ins] obtain s1 where
    "waitUntilButtonsReleased (loaded v) (poll_at 5 3 # ins) = Some (s1, ins)"
    "buttonState s1 = 0" "lastButtonReadTime s1 = 5"
    "exposureTime s1 = exposureTime (loaded v)" "digit_ok s1" by blast
  then show ?thesis
    by (auto simp add: exposure_passes_def)
qed

lemma enter_fields:
  "buttonState (fst (exposure_enter t0 s)) = buttonState s"
  "lastButtonReadTime (fst (exposure_enter t0 s)) = lastButtonReadTime s"
  "exposureTime (fst (exposure_enter t0 s)) = exposureTime s"
  "digit_ok (fst (exposure_enter t0 s)) = digit_ok s"
  "startTime (snd (exposure_enter t0 s)) = t0"
  "startButtonDownTime (snd (exposure_enter t0 s)) = 0"
  "blink (snd (exposure_enter t0 s)) = 0"
  by (simp_all add: exposure_enter_def digit_ok_def)

lemma unat_small_u32: "n < 4294967296 \<Longrightarrow> unat (of_nat n :: u32) = n"
  by (simp add: unat_of_nat)

lemma early_held_pass:
  assumes "k < 499" and "exposureTime (fst c) = d" and "startTime (snd c) = 9" and "d \<noteq> 0"
  shows "cycle_remaining (poll_at (10 + 2 * k) 2) c \<noteq> 0"
proof -
  have u: "unat (of_nat (10 + 2 * k) :: u32) = 10 + 2 * k"
    using assms(1) by (intro unat_small_u32) simp
  have "(9 :: u32) \<le> of_nat (10 + 2 * k)"
    using u by (simp only: word_le_nat_alt) simp
  moreover have "unat (of_nat (10 + 2 * k) :: u32) - unat (9 :: u32) < 1000"
    using u assms(1) by simp
  ultimately have "remaining_time d 9 (of_nat (10 + 2 * k)) = d"
    by (rule remaining_time_early)
  with assms show ?thesis
    by (simp add: cycle_remaining_def poll_at_def)
qed

lemma early_idle_pass:
  assumes "k < 600" and "exposureTime (fst c) = d" and "startTime (snd c) = 9" and "d \<noteq> 0"
  shows "cycle_remaining (poll_at (10 + k) 3) c \<noteq> 0"
proof -
  have u: "unat (of_nat (10 + k) :: u32) = 10 + k"
    using assms(1) by (intro unat_small_u32) simp
  have "(9 :: u32) \<le> of_nat (10 + k)"
    using u by (simp only: word_le_nat_alt) simp
  moreover have "unat (of_nat (10 + k) :: u32) - unat (9 :: u32) < 1000"
    using u assms(1) by simp
  ultimately have "remaining_time d 9 (of_nat (10 + k)) = d"
    by (rule remaining_time_early)
  with assms show ?thesis
    by (simp add: cycle_remaining_def poll_at_def)
qed

text \<open>Start is held from the first pass on, for 499 passes, while the seconds run.\<close>

lemma held_499:
  assumes d: "exposureTime (loaded v) \<noteq> 0"
  shows "\<exists>tr c'. exposure_passes 9 (loaded v) (poll_at 5 3 # held_start_run 499 @ rest)
             = tr @ exposure_trace c' rest
           \<and> length tr = 499 \<and> list_all held tr
           \<and> buttonState (fst c') = 1
           \<and> exposureTime (fst c') = exposureTime (loaded v)
           \<and> startTime (snd c') = 9
           \<and> startButtonDownTime (snd c') = 499"
proof -
  from passes_after_drain [of 9 v "held_start_run 499 @ rest"] obtain s1 where
    p: "exposure_passes 9 (loaded v) (poll_at 5 3 # held_start_run 499 @ rest)
          = exposure_trace (exposure_enter 9 s1) (held_start_run 499 @ rest)"
    and s1: "buttonState s1 = 0" "lastButtonReadTime s1 = 5"
      "exposureTime s1 = exposureTime (loaded v)" "digit_ok s1" by blast
  let ?c = "exposure_enter 9 s1"
  have ne: "held_start_run 499 \<noteq> []" and hd: "hd (held_start_run 499) = poll_at 10 2"
    by (simp_all add: held_start_run_def upt_rec [of 0] hd_map)
  have a1: "buttonState (fst ?c) = 1
           \<or> (held_start_run 499 \<noteq> []
               \<and> 5 \<le> ms_second (hd (held_start_run 499)) - lastButtonReadTime (fst ?c))"
    using ne by (simp add: hd enter_fields s1 poll_at_def)
  have a2: "\<forall>i\<in>set (held_start_run 499). (pina i AND 3) XOR 3 = 1 \<and> cycle_remaining i ?c \<noteq> 0"
    using early_held_pass [of _ ?c "exposureTime (loaded v)"] d
    by (auto simp add: held_start_run_def enter_fields s1 poll_at_def)
  have a3: "(1 :: u8) = 0 \<or> ((1 :: u8) = 1
              \<and> unat (startButtonDownTime (snd ?c)) + length (held_start_run 499) < 500)"
    by (simp add: enter_fields held_start_run_def)
  from steady_run [OF a1 a2 a3, of rest] obtain tr c' where
    r: "exposure_trace ?c (held_start_run 499 @ rest) = tr @ exposure_trace c' rest"
      "length tr = length (held_start_run 499)"
      "list_all (\<lambda>cy. held cy = ((1 :: u8) = 1) \<and> remaining cy \<noteq> 0 \<and> left cy = None) tr"
      "held_start_run 499 \<noteq> [] \<longrightarrow> buttonState (fst c') = 1"
      "exposureTime (fst c') = exposureTime (fst ?c)"
      "startTime (snd c') = startTime (snd ?c)"
      "(1 :: u8) = 1 \<longrightarrow> unat (startButtonDownTime (snd c'))
          = unat (startButtonDownTime (snd ?c)) + length (held_start_run 499)"
    by blast
  from r(3) have "list_all held tr" by (simp add: list_all_iff)
  moreover from r(7) have "unat (startButtonDownTime (snd c')) = 499"
    by (simp add: enter_fields held_start_run_def)
  then have "word_of_nat (unat (startButtonDownTime (snd c'))) = (word_of_nat 499 :: u16)"
    by simp
  then have "startButtonDownTime (snd c') = 499"
    by simp
  ultimately show ?thesis
    using p r(1,2,5,6) r(4) ne
    by (intro exI [of _ tr] exI [of _ c']) (simp add: enter_fields s1 held_start_run_def)
qed

lemma single_pass:
  "\<exists>c1. exposure_trace c [i] =
     [\<lparr>head = c, remaining = cycle_remaining i c, held = cycle_held i c, after = c1,
       left = (if cycle_remaining i c = 0 \<and> cycle_held i c then Some Finished
               else if (if cycle_held i c then startButtonDownTime (snd c) + 1 else 0) = 500
                    then Some Cancelled else None)\<rparr>]"
proof -
  obtain c1 e1 where ce: "exposure_cycle i c = Some (c1, e1)"
    using exposure_cycle_Some by blast
  with exposure_cycle_facts(1) [OF ce] show ?thesis
    by (intro exI [of _ c1]) simp
qed

lemma held_while_down:
  assumes "buttonState (fst c) = 1"
  shows "cycle_held (poll_at t 2) c"
  using assms
  by (simp add: cycle_held_def updateButtons_sampling poll_at_def BUTTON_START_def)

lemma hold_streak_all:
  assumes "list_all held tr" and "held cy" and "length tr = n"
  shows "hold_streak (tr @ [cy]) n = Suc n"
proof -
  have "takeWhile held (cy # rev tr) = cy # rev tr"
    using assms(1,2) by (simp add: list_all_iff)
  with assms(3) show ?thesis
    by (simp add: hold_streak_def)
qed

lemma loaded_fields:
  "exposureTime (loaded 1) = 1" "exposureTime (loaded 30) = 30"
  "mode_ok (loaded v)" "mosfets (loaded v) = 0" "digit_ok (loaded v)"
  by (simp_all add: loaded_def readConfig_def reset_state_def Let_def mode_ok_def mosfets_def
      digit_ok_def word_le_nat_alt)

text \<open>The passes of a call of \<^verbatim>\<open>exposure\<close> are those of its loop.\<close>

lemma passes_cases:
  assumes "n < length (exposure_passes t0 s ins)"
  obtains s1 ins1 where "waitUntilButtonsReleased s ins = Some (s1, ins1)"
    and "exposure_passes t0 s ins = exposure_trace (exposure_enter t0 s1) ins1"
  using assms by (auto simp add: exposure_passes_def split: option.splits)

lemma demo_eval:
  "map (\<lambda>cy. (remaining cy, held cy, left cy, mosfets (fst (after cy)), blink (snd (head cy)),
               dot_line (fst (after cy)), display_on (fst (after cy))))
     (exposure_passes 9 (loaded 1) demo_run)
   = [(1, False, None, 32, 0, True, True), (0, False, None, 0, 0, True, True),
      (0, True, Some Finished, 0, 2, True, True)]"
  "map_option (\<lambda>r. (mosfets (fst r), snd r)) (exposure 9 (loaded 1) demo_run) = Some (0, [])"
  by (simp_all add: exposure_passes_def exposure_def demo_run_def loaded_def readConfig_def
      reset_state_def poll_at_def updateButtons_def updateDisplay_Some exposure_enter_def
      exposure_cycle_def remaining_time_def cycle_remaining_def cycle_held_def Let_def
      mosfets_def dot_line_def display_on_def BUTTON_START_def SEG_DOTS_def next_digit_def
      word_le_nat_alt)

text \<open>Start held from the first pass on: after 499 passes one more pass decides.\<close>

lemma held_500:
  assumes d: "exposureTime (loaded v) \<noteq> 0"
  shows "\<exists>tr cy. exposure_passes 9 (loaded v) (poll_at 5 3 # held_start_run 499 @ [poll_at t 2])
             = tr @ [cy]
           \<and> length tr = 499 \<and> list_all held tr \<and> held cy
           \<and> remaining cy = remaining_time (exposureTime (loaded v)) 9 (of_nat t)
           \<and> left cy = (if remaining cy = 0 then Some Finished else Some Cancelled)"
proof -
  from held_499 [OF d, of "[poll_at t 2]"] obtain tr c' where
    r: "exposure_passes 9 (loaded v) (poll_at 5 3 # held_start_run 499 @ [poll_at t 2])
          = tr @ exposure_trace c' [poll_at t 2]"
      "length tr = 499" "list_all held tr" "buttonState (fst c') = 1"
      "exposureTime (fst c') = exposureTime (loaded v)" "startTime (snd c') = 9"
      "startButtonDownTime (snd c') = 499"
    by blast
  from single_pass [of c' "poll_at t 2"] obtain c1 where
    s: "exposure_trace c' [poll_at t 2] =
     [\<lparr>head = c', remaining = cycle_remaining (poll_at t 2) c',
       held = cycle_held (poll_at t 2) c', after = c1,
       left = (if cycle_remaining (poll_at t 2) c' = 0 \<and> cycle_held (poll_at t 2) c'
               then Some Finished
               else if (if cycle_held (poll_at t 2) c' then startButtonDownTime (snd c') + 1
                        else 0) = 500
                    then Some Cancelled else None)\<rparr>]"
    by blast
  have h: "cycle_held (poll_at t 2) c'"
    by (rule held_while_down [OF r(4)])
  have q: "cycle_remaining (poll_at t 2) c'
             = remaining_time (exposureTime (loaded v)) 9 (of_nat t)"
    by (simp add: cycle_remaining_def r(5,6) poll_at_def)
  show ?thesis
    apply (rule exI [of _ tr])
    apply (rule exI [of _ "\<lparr>head = c', remaining = cycle_remaining (poll_at t 2) c',
       held = True, after = c1,
       left = (if cycle_remaining (poll_at t 2) c' = 0 then Some Finished
               else Some Cancelled)\<rparr>"])
    using r(1,2,3) s h q r(7) by simp
qed

section \<open>Claims about the exposure routine\<close>

text \<open>
  What does hold of the MOSFET lines. Let \<^verbatim>\<open>exposure\<close> be called in a state of the
  idle loop: \<open>mode\<close> is 0, 1 or 2, both MOSFET lines are low, the display cursor is in
  range. When the entry drain has returned, the lines are set by the mode: bit 5 alone
  for top, bit 6 alone for bottom, both for both. After every pass up to which the seconds
  left have not been 0 they are still so; from the first pass that computes 0 on they are
  low and stay low. Whenever the routine returns, its loop has made at least one pass,
  the last one took a break, and both lines are low.
\<close>

lemma exposure_mosfets:
  assumes m: "mode_ok s" and off: "mosfets s = 0" and d: "digit_ok s"
  shows "(\<forall>s1 ins1. waitUntilButtonsReleased s ins = Some (s1, ins1) \<longrightarrow>
            mosfets (fst (exposure_enter t0 s1))
              = (if mode s = 0 then 32 else if mode s = 1 then 64 else 96))
     \<and> (\<forall>n < length (exposure_passes t0 s ins).
            mosfets (fst (after (exposure_passes t0 s ins ! n)))
              = (if counting_down (exposure_passes t0 s ins) n
                 then (if mode s = 0 then 32 else if mode s = 1 then 64 else 96) else 0))
     \<and> (\<forall>s' rest. exposure t0 s ins = Some (s', rest) \<longrightarrow> mosfets s' = 0)"
proof -
  have a: "mosfets (fst (exposure_enter t0 s1))
             = (if mode s = 0 then 32 else if mode s = 1 then 64 else 96)"
    and dk: "digit_ok (fst (exposure_enter t0 s1))"
    if w: "waitUntilButtonsReleased s ins = Some (s1, ins1)" for s1 ins1
  proof -
    from wait_frame [OF w] m off d
    have m1: "mode_ok s1" "mode s1 = mode s" and off1: "mosfets s1 = 0" and d1: "digit_ok s1"
      by (simp_all add: mode_ok_def)
    show "mosfets (fst (exposure_enter t0 s1))
             = (if mode s = 0 then 32 else if mode s = 1 then 64 else 96)"
      using exposure_enter_mosfets [OF m1(1) off1] m1(2) by simp
    show "digit_ok (fst (exposure_enter t0 s1))"
      using d1 by (simp add: exposure_enter_def digit_ok_def)
  qed
  have b: "mosfets (fst (after (exposure_passes t0 s ins ! n)))
              = (if counting_down (exposure_passes t0 s ins) n
                 then (if mode s = 0 then 32 else if mode s = 1 then 64 else 96) else 0)"
    if n: "n < length (exposure_passes t0 s ins)" for n
  proof -
    from n obtain s1 ins1 where w: "waitUntilButtonsReleased s ins = Some (s1, ins1)"
      and p: "exposure_passes t0 s ins = exposure_trace (exposure_enter t0 s1) ins1"
      by (rule passes_cases)
    from n p have n': "n < length (exposure_trace (exposure_enter t0 s1) ins1)" by simp
    from trace_mosfets [OF dk [OF w] n'] a [OF w] p show ?thesis by simp
  qed
  have c: "mosfets s' = 0" if r: "exposure t0 s ins = Some (s', rest)" for s' rest
  proof -
    from r obtain c ins2 where
      "waitUntilButtonsReleased ((fst c)\<lparr>PORTD := PORTD (fst c) AND NOT 96\<rparr>) ins2
         = Some (s', rest)"
      by (auto simp add: exposure_def split: option.splits)
    from wait_frame [OF this]
    have "mosfets s' = mosfets ((fst c)\<lparr>PORTD := PORTD (fst c) AND NOT 96\<rparr>)" by blast
    also have "\<dots> = (PORTD (fst c) AND NOT 96) AND 96" by (simp only: mosfets_def) simp
    also have "\<dots> = 0" by (rule clear_mosfets)
    finally show ?thesis .
  qed
  from a b c show ?thesis by blast
qed

lemma exposure_mosfets_witness:
  "mode_ok (loaded 1) \<and> mosfets (loaded 1) = 0 \<and> digit_ok (loaded 1)
   \<and> length (exposure_passes 9 (loaded 1) demo_run) = 3
   \<and> counting_down (exposure_passes 9 (loaded 1) demo_run) 0
   \<and> mosfets (fst (after (exposure_passes 9 (loaded 1) demo_run ! 0))) = 32
   \<and> \<not> counting_down (exposure_passes 9 (loaded 1) demo_run) 1
   \<and> mosfets (fst (after (exposure_passes 9 (loaded 1) demo_run ! 1))) = 0
   \<and> left (exposure_passes 9 (loaded 1) demo_run ! 2) = Some Finished
   \<and> map_option (\<lambda>r. (mosfets (fst r), snd r)) (exposure 9 (loaded 1) demo_run) = Some (0, [])"
proof -
  let ?tr = "exposure_passes 9 (loaded 1) demo_run"
  have l: "length (map remaining ?tr) = 3"
    using arg_cong [OF demo_eval(1), of length] by simp
  then have len: "length ?tr = 3" by simp
  have r: "map remaining ?tr = [1, 0, 0]" and e: "map left ?tr = [None, None, Some Finished]"
    using arg_cong [OF demo_eval(1), of "map fst"]
      arg_cong [OF demo_eval(1), of "map (\<lambda>x. fst (snd (snd x)))"]
    by (simp_all add: comp_def)
  from r len have r0: "remaining (?tr ! 0) = 1" and r1: "remaining (?tr ! 1) = 0"
    by (metis nth_map nth_Cons_0 zero_less_numeral, metis nth_map nth_Cons_0 nth_Cons_Suc One_nat_def
        one_less_numeral_iff semiring_norm(77))
  from e len have e2: "left (?tr ! 2) = Some Finished"
    by (metis nth_map nth_Cons_0 nth_Cons_Suc numeral_2_eq_2 lessI numeral_3_eq_3)
  have c0: "counting_down ?tr 0"
    using len r0 by (simp add: counting_down_0)
  have c1: "\<not> counting_down ?tr 1"
    using len r1 counting_down_Suc [of 0 ?tr] by simp
  from exposure_mosfets [OF loaded_fields(3,4,5), of 1 demo_run 9] len c0 c1
  have "mosfets (fst (after (?tr ! 0))) = 32" "mosfets (fst (after (?tr ! 1))) = 0"
    by (simp_all add: loaded_def readConfig_def reset_state_def Let_def)
  with len c0 c1 e2 demo_eval(2) loaded_fields show ?thesis by simp
qed

lemma exposure_return_passes:
  assumes "exposure t0 s ins = Some (s', rest)"
  shows "exposure_passes t0 s ins \<noteq> []
     \<and> (\<exists>e. left (last (exposure_passes t0 s ins)) = Some e)
     \<and> mosfets s' = 0"
proof -
  from assms obtain s1 ins1 c e ins2 where
    w: "waitUntilButtonsReleased s ins = Some (s1, ins1)"
    and l: "exposure_loop (exposure_enter t0 s1) ins1 = Some (c, e, ins2)"
    and x: "waitUntilButtonsReleased ((fst c)\<lparr>PORTD := PORTD (fst c) AND NOT 96\<rparr>) ins2
              = Some (s', rest)"
    by (auto simp add: exposure_def split: option.splits)
  from w have p: "exposure_passes t0 s ins = exposure_trace (exposure_enter t0 s1) ins1"
    by (simp add: exposure_passes_def)
  from wait_frame [OF x]
  have "mosfets s' = mosfets ((fst c)\<lparr>PORTD := PORTD (fst c) AND NOT 96\<rparr>)" by blast
  also have "\<dots> = (PORTD (fst c) AND NOT 96) AND 96" by (simp only: mosfets_def) simp
  also have "\<dots> = 0" by (rule clear_mosfets)
  finally have m: "mosfets s' = 0" .
  from exposure_loop_trace [OF l] p m show ?thesis by simp
qed


text \<open>
  Claim C3, as the code has it. On every pass of the exposure loop: the loop leaves
  through the cancel break (line 258) exactly when this pass is the 500th in a row that
  saw Start held and the seconds left are not 0; with 0 seconds left a held Start leaves
  through the break of line 249, which is checked first; on a pass that does not take that
  break the hold counter equals the number of passes in a row that saw Start held, so a
  pass that sees Start up sets it to 0; and that number never exceeds 500.
\<close>

theorem exposure_cancel_needs_500_held:
  assumes n: "n < length (exposure_passes t0 s ins)"
  shows "(left (exposure_passes t0 s ins ! n) = Some Cancelled
            \<longleftrightarrow> hold_streak (exposure_passes t0 s ins) n = 500
                \<and> remaining (exposure_passes t0 s ins ! n) \<noteq> 0)
     \<and> (left (exposure_passes t0 s ins ! n) = Some Finished
            \<longleftrightarrow> held (exposure_passes t0 s ins ! n)
                \<and> remaining (exposure_passes t0 s ins ! n) = 0)
     \<and> (left (exposure_passes t0 s ins ! n) \<noteq> Some Finished \<longrightarrow>
            unat (startButtonDownTime (snd (after (exposure_passes t0 s ins ! n))))
              = hold_streak (exposure_passes t0 s ins) n)
     \<and> (\<not> held (exposure_passes t0 s ins ! n) \<longrightarrow>
            hold_streak (exposure_passes t0 s ins) n = 0
            \<and> startButtonDownTime (snd (after (exposure_passes t0 s ins ! n))) = 0)
     \<and> hold_streak (exposure_passes t0 s ins) n \<le> 500"
proof -
  from n obtain s1 ins1 where
    p: "exposure_passes t0 s ins = exposure_trace (exposure_enter t0 s1) ins1"
    by (rule passes_cases)
  have z: "startButtonDownTime (snd (exposure_enter t0 s1)) = 0"
    by (simp add: exposure_enter_def)
  from n p have n': "n < length (exposure_trace (exposure_enter t0 s1) ins1)" by simp
  show ?thesis
    unfolding p by (rule trace_cancel [OF z n'])
qed

theorem exposure_cancel_needs_500_held_witness:
  "499 < length (exposure_passes 9 (loaded 30) (poll_at 5 3 # held_start_run 499 @ [poll_at 1008 2]))
   \<and> left (exposure_passes 9 (loaded 30) (poll_at 5 3 # held_start_run 499 @ [poll_at 1008 2]) ! 499)
        = Some Cancelled
   \<and> hold_streak (exposure_passes 9 (loaded 30) (poll_at 5 3 # held_start_run 499 @ [poll_at 1008 2]))
        499 = 500
   \<and> remaining (exposure_passes 9 (loaded 30) (poll_at 5 3 # held_start_run 499 @ [poll_at 1008 2])
        ! 499) = 30"
proof -
  let ?tr = "exposure_passes 9 (loaded 30) (poll_at 5 3 # held_start_run 499 @ [poll_at 1008 2])"
  have d: "exposureTime (loaded 30) \<noteq> 0" by (simp add: loaded_fields)
  from held_500 [OF d, of 1008] obtain tr cy where
    r: "?tr = tr @ [cy]" "length tr = 499" "list_all held tr" "held cy"
      "remaining cy = remaining_time (exposureTime (loaded 30)) 9 (of_nat 1008)"
    by blast
  have rem: "remaining cy = 30"
    by (simp add: r(5) loaded_fields remaining_time_def Let_def word_le_nat_alt)
  from r(1,2) have len: "499 < length ?tr" and nth: "?tr ! 499 = cy"
    by (simp_all add: nth_append)
  have st: "hold_streak ?tr 499 = 500"
    using hold_streak_all [OF r(3,4,2)] r(1) by simp
  from exposure_cancel_needs_500_held [OF len] st rem nth len show ?thesis
    by simp
qed

text \<open>
  Claim C3 as stated fails. With one second configured, Start is held from the first
  pass on; the 500th pass in a row that sees it held is also the first with 0 seconds
  left: the loop leaves through the break of line 249, not through the cancel break.
\<close>

theorem exposure_cancel_tie_counterexample:
  "hold_streak (exposure_passes 9 (loaded 1) (poll_at 5 3 # held_start_run 499 @ [poll_at 1010 2]))
      499 = 500
   \<and> left (exposure_passes 9 (loaded 1) (poll_at 5 3 # held_start_run 499 @ [poll_at 1010 2]) ! 499)
        = Some Finished"
proof -
  let ?tr = "exposure_passes 9 (loaded 1) (poll_at 5 3 # held_start_run 499 @ [poll_at 1010 2])"
  have d: "exposureTime (loaded 1) \<noteq> 0" by (simp add: loaded_fields)
  from held_500 [OF d, of 1010] obtain tr cy where
    r: "?tr = tr @ [cy]" "length tr = 499" "list_all held tr" "held cy"
      "remaining cy = remaining_time (exposureTime (loaded 1)) 9 (of_nat 1010)"
      "left cy = (if remaining cy = 0 then Some Finished else Some Cancelled)"
    by blast
  have rem: "remaining cy = 0"
    by (simp add: r(5) loaded_fields remaining_time_def Let_def word_le_nat_alt)
  from r(1,2) have nth: "?tr ! 499 = cy"
    by (simp add: nth_append)
  have st: "hold_streak ?tr 499 = 500"
    using hold_streak_all [OF r(3,4,2)] r(1) by simp
  from st nth rem r(6) show ?thesis by simp
qed

lemma blink_half_period: "(2 * z mod 1024 < 512) = (z mod 512 < (256 :: nat))"
proof -
  have "2 * z mod 1024 = 2 * (z mod 512)"
    using mult_mod_right [of 2 z 512] by simp
  then show ?thesis by simp
qed

text \<open>
  Claim C7, as the code has it. The dots and the digit mask of every pass are both
  taken from one blink counter: the dots are lit and a digit is enabled exactly when it
  is below 512. The counter starts at 0, advances by 2 modulo 1024 on a pass with 0
  seconds left and keeps its value on any other pass: before pass \<open>n\<close> it is twice the
  number of earlier passes with 0 seconds left, modulo 1024. So while the seconds left
  have not been 0 the dots are lit and a digit is enabled on every pass, with no blinking;
  and counted over the passes with 0 seconds left, dots and digits blink together, lit for
  256 of them and dark for the next 256.
\<close>

theorem exposure_blink_only_after_countdown:
  assumes d: "digit_ok s" and n: "n < length (exposure_passes t0 s ins)"
  shows "unat (blink (snd (head (exposure_passes t0 s ins ! n))))
           = 2 * zeros_before (exposure_passes t0 s ins) n mod 1024
     \<and> blink (snd (after (exposure_passes t0 s ins ! n)))
           = (if remaining (exposure_passes t0 s ins ! n) = 0
              then (blink (snd (head (exposure_passes t0 s ins ! n))) + 2) AND 1023
              else blink (snd (head (exposure_passes t0 s ins ! n))))
     \<and> dot_line (fst (after (exposure_passes t0 s ins ! n)))
           = (2 * zeros_before (exposure_passes t0 s ins) n mod 1024 < 512)
     \<and> display_on (fst (after (exposure_passes t0 s ins ! n)))
           = (2 * zeros_before (exposure_passes t0 s ins) n mod 1024 < 512)
     \<and> dot_line (fst (after (exposure_passes t0 s ins ! n)))
           = (zeros_before (exposure_passes t0 s ins) n mod 512 < 256)
     \<and> display_on (fst (after (exposure_passes t0 s ins ! n)))
           = (zeros_before (exposure_passes t0 s ins) n mod 512 < 256)
     \<and> (counting_down (exposure_passes t0 s ins) n \<longrightarrow>
           zeros_before (exposure_passes t0 s ins) n = 0
           \<and> dot_line (fst (after (exposure_passes t0 s ins ! n)))
           \<and> display_on (fst (after (exposure_passes t0 s ins ! n)))
           \<and> blink (snd (after (exposure_passes t0 s ins ! n))) = 0)"
proof -
  from n obtain s1 ins1 where w: "waitUntilButtonsReleased s ins = Some (s1, ins1)"
    and p: "exposure_passes t0 s ins = exposure_trace (exposure_enter t0 s1) ins1"
    by (rule passes_cases)
  from wait_frame [OF w] d have "digit_ok s1" by simp
  then have dk: "digit_ok (fst (exposure_enter t0 s1))"
    by (simp add: enter_fields)
  have z: "blink (snd (exposure_enter t0 s1)) = 0"
    by (simp add: enter_fields)
  from n p have n': "n < length (exposure_trace (exposure_enter t0 s1) ins1)" by simp
  let ?tr = "exposure_trace (exposure_enter t0 s1) ins1"
  note a = trace_blink_facts [OF z dk n'] and b = trace_display(3) [OF dk n']
  from a have "dot_line (fst (after (?tr ! n))) = (2 * zeros_before ?tr n mod 1024 < 512)"
    and "display_on (fst (after (?tr ! n))) = (2 * zeros_before ?tr n mod 1024 < 512)"
    by blast+
  then have c: "dot_line (fst (after (?tr ! n))) = (zeros_before ?tr n mod 512 < 256)"
    "display_on (fst (after (?tr ! n))) = (zeros_before ?tr n mod 512 < 256)"
    by (simp_all only: blink_half_period)
  from a b c show ?thesis
    unfolding p by blast
qed

theorem exposure_blink_only_after_countdown_witness:
  "digit_ok (loaded 1)
   \<and> length (exposure_passes 9 (loaded 1) demo_run) = 3
   \<and> counting_down (exposure_passes 9 (loaded 1) demo_run) 0
   \<and> dot_line (fst (after (exposure_passes 9 (loaded 1) demo_run ! 0)))
   \<and> display_on (fst (after (exposure_passes 9 (loaded 1) demo_run ! 0)))
   \<and> blink (snd (after (exposure_passes 9 (loaded 1) demo_run ! 0))) = 0
   \<and> zeros_before (exposure_passes 9 (loaded 1) demo_run) 2 = 1
   \<and> unat (blink (snd (head (exposure_passes 9 (loaded 1) demo_run ! 2)))) = 2
   \<and> dot_line (fst (after (exposure_passes 9 (loaded 1) demo_run ! 2)))"
proof -
  let ?tr = "exposure_passes 9 (loaded 1) demo_run"
  have l: "length (map remaining ?tr) = 3"
    using arg_cong [OF demo_eval(1), of length] by simp
  then have len: "length ?tr = 3" by simp
  have r: "map remaining ?tr = [1, 0, 0]"
    using arg_cong [OF demo_eval(1), of "map fst"] by (simp add: comp_def)
  from r len have r0: "remaining (?tr ! 0) = 1"
    by (metis nth_map nth_Cons_0 zero_less_numeral)
  have c0: "counting_down ?tr 0"
    using len r0 by (simp add: counting_down_0)
  have "zeros_before ?tr 2 = length (filter (\<lambda>x. x = 0) (take 2 (map remaining ?tr)))"
    by (simp add: zeros_before_def take_map filter_map comp_def)
  then have z2: "zeros_before ?tr 2 = 1"
    by (simp add: r numeral_2_eq_2)
  from len have n0: "0 < length ?tr" and n2: "2 < length ?tr" by simp_all
  from exposure_blink_only_after_countdown [OF loaded_fields(5) n0] c0
  have a0: "dot_line (fst (after (?tr ! 0)))" "display_on (fst (after (?tr ! 0)))"
    "blink (snd (after (?tr ! 0))) = 0"
    by blast+
  from exposure_blink_only_after_countdown [OF loaded_fields(5) n2]
  have "unat (blink (snd (head (?tr ! 2)))) = 2 * zeros_before ?tr 2 mod 1024"
    and "dot_line (fst (after (?tr ! 2))) = (2 * zeros_before ?tr 2 mod 1024 < 512)"
    by blast+
  with z2 have a2: "unat (blink (snd (head (?tr ! 2)))) = 2" "dot_line (fst (after (?tr ! 2)))"
    by simp_all
  from a0 a2 c0 z2 len loaded_fields(5) show ?thesis by simp
qed

text \<open>
  Claim C7 as stated fails. On 600 passes in a row with seconds left, 1 ms apart within
  the first second of a 30 second exposure, more than the 512 passes of a blink period, the
  dots are lit on every pass and the blink counter is still 0.
\<close>

theorem exposure_dots_steady_counterexample:
  "length (exposure_passes 9 (loaded 30) (poll_at 5 3 # idle_run 600)) = 600
   \<and> list_all (\<lambda>cy. remaining cy \<noteq> 0 \<and> dot_line (fst (after cy)) \<and> blink (snd (after cy)) = 0)
        (exposure_passes 9 (loaded 30) (poll_at 5 3 # idle_run 600))"
proof -
  let ?tr = "exposure_passes 9 (loaded 30) (poll_at 5 3 # idle_run 600)"
  from passes_after_drain [of 9 30 "idle_run 600"] obtain s1 where
    p: "?tr = exposure_trace (exposure_enter 9 s1) (idle_run 600)"
    and s1: "buttonState s1 = 0" "lastButtonReadTime s1 = 5"
      "exposureTime s1 = exposureTime (loaded 30)" "digit_ok s1" by blast
  let ?c = "exposure_enter 9 s1"
  have a1: "buttonState (fst ?c) = 0
           \<or> (idle_run 600 \<noteq> []
               \<and> 5 \<le> ms_second (hd (idle_run 600)) - lastButtonReadTime (fst ?c))"
    by (simp add: enter_fields s1)
  have a2: "\<forall>i\<in>set (idle_run 600). (pina i AND 3) XOR 3 = 0 \<and> cycle_remaining i ?c \<noteq> 0"
    using early_idle_pass [of _ ?c 30]
    by (auto simp add: idle_run_def enter_fields s1 poll_at_def loaded_fields)
  have a3: "(0 :: u8) = 0 \<or> ((0 :: u8) = 1
              \<and> unat (startButtonDownTime (snd ?c)) + length (idle_run 600) < 500)"
    by simp
  from steady_run [OF a1 a2 a3, of "[]"] obtain tr c' where
    r: "exposure_trace ?c (idle_run 600 @ []) = tr @ exposure_trace c' []"
      "length tr = length (idle_run 600)"
      "list_all (\<lambda>cy. held cy = ((0 :: u8) = 1) \<and> remaining cy \<noteq> 0 \<and> left cy = None) tr"
    by blast
  from r(1) p have tr: "?tr = tr" by simp
  from r(2) have len: "length tr = 600" by (simp add: idle_run_def)
  from r(3) have rem: "\<forall>cy\<in>set tr. remaining cy \<noteq> 0" by (simp add: list_all_iff)
  have z: "blink (snd ?c) = 0" and dk: "digit_ok (fst ?c)"
    by (simp_all add: enter_fields s1)
  have "remaining (tr ! n) \<noteq> 0 \<and> dot_line (fst (after (tr ! n)))
        \<and> blink (snd (after (tr ! n))) = 0" if n: "n < length tr" for n
  proof -
    from n tr p have n': "n < length (exposure_trace ?c (idle_run 600))" by simp
    have "counting_down tr n"
      using rem by (auto simp add: counting_down_def list_all_iff dest: in_set_takeD)
    with trace_blink_facts [OF z dk n'] tr p rem n show ?thesis
      by simp
  qed
  then have "list_all (\<lambda>cy. remaining cy \<noteq> 0 \<and> dot_line (fst (after cy))
                \<and> blink (snd (after cy)) = 0) tr"
    by (simp add: list_all_length)
  with len tr show ?thesis by simp
qed

section \<open>The countdown in sessions shorter than 65536 seconds\<close>

text \<open>
  While fewer than 65536 whole seconds have passed since entry, the seconds left are the
  duration less the elapsed seconds, and 0 once these reach the duration (subtraction on
  \<open>nat\<close> stops at 0). The two values of the 125 second scenario follow.
\<close>

lemma remaining_time_short_session:
  assumes "unat ((now - entry) div 1000) < 65536"
  shows "unat (remaining_time d entry now) = unat d - unat ((now - entry) div 1000)"
proof -
  let ?q = "(now - entry) div 1000"
  have e: "unat (ucast ?q :: u16) = unat ?q"
    using assms by (simp add: unsigned_ucast_eq take_bit_nat_eq_self)
  show ?thesis
  proof (cases "d \<le> (ucast ?q :: u16)")
    case True
    then have "unat d \<le> unat ?q" using e by (simp add: word_le_nat_alt)
    with True show ?thesis by (simp add: remaining_time_def Let_def)
  next
    case False
    then have "(ucast ?q :: u16) \<le> d" by simp
    then have "unat (d - ucast ?q) = unat d - unat (ucast ?q :: u16)"
      by (rule unat_sub)
    with False e show ?thesis by (simp add: remaining_time_def Let_def)
  qed
qed

lemma remaining_time_scenario:
  "remaining_time 125 0 65000 = 60 \<and> remaining_time 125 0 125000 = 0"
  by (simp add: remaining_time_def Let_def word_le_nat_alt)

section \<open>Time setup without a Start press\<close>

text \<open>
  A sample with bit 0 of \<^verbatim>\<open>PINA\<close> high has Start up; no such sample gives a Start
  press edge.
\<close>

lemma start_up_sample:
  assumes "pina i AND 1 = 1"
  shows "((pina i AND 3) XOR 3) AND BUTTON_START = 0"
proof -
  have "((pina i AND 3) XOR 3) AND 1 = ((pina i AND 3) AND 1) XOR (3 AND 1)"
    by (rule bit.conj_xor_distrib2)
  also have "(pina i AND 3) AND 1 = pina i AND 1"
    by (simp add: and.assoc)
  also have "(3 :: u8) AND 1 = 1"
    by simp
  finally show ?thesis
    using assms by (simp add: BUTTON_START_def)
qed

lemma no_start_press:
  assumes "prevButtonState s = buttonState s" and "pina i AND 1 = 1"
  shows "buttonPressed (updateButtons i s) AND BUTTON_START = 0"
proof (cases "5 \<le> ms_second i - lastButtonReadTime s")
  case True
  have "buttonPressed (updateButtons i s)
          = ((pina i AND 3) XOR 3) AND NOT (prevButtonState s)"
    using True by (simp add: updateButtons_buttons updateButtons_sampling)
  then have "buttonPressed (updateButtons i s) AND BUTTON_START
          = (((pina i AND 3) XOR 3) AND BUTTON_START) AND NOT (prevButtonState s)"
    by (simp add: ac_simps)
  with start_up_sample [OF assms(2)] show ?thesis by simp
next
  case False
  then show ?thesis
    using assms(1) by (simp add: updateButtons_buttons updateButtons_sampling)
qed

lemma updateDisplay_frame:
  assumes "updateDisplay t dots en s = Some s'"
  shows "buttonState s' = buttonState s" "prevButtonState s' = prevButtonState s"
    "buttonPressed s' = buttonPressed s" "buttonReleased s' = buttonReleased s"
    "exposureTime s' = exposureTime s" "eeprom s' = eeprom s"
    "eeprom_writes s' = eeprom_writes s" "mode s' = mode s"
    "lastButtonReadTime s' = lastButtonReadTime s"
  using assms by (auto simp add: updateDisplay_Some)

lemma narrow_widen:
  fixes x :: u16
  assumes "unat x < 256"
  shows "(ucast (ucast x :: u8) :: u16) = x"
proof -
  have "unat (ucast (ucast x :: u8) :: u16) = unat x"
    using assms by (simp add: widen_u8 narrow_small)
  then show ?thesis by (simp only: word_unat_eq_iff)
qed

lemma split_duration:
  fixes d :: u16
  assumes "unat d \<le> 599"
  shows "ucast (ucast (d div 60) :: u8) * 60
           + ucast (ucast (d - ucast (ucast (d div 60) :: u8) * 60) :: u8) = d"
proof -
  have "unat (d div 60) < 256"
    using assms by (simp add: unat_div)
  then have m: "(ucast (ucast (d div 60) :: u8) :: u16) = d div 60"
    by (rule narrow_widen)
  have "d div 60 * 60 + d mod 60 = d"
    by (rule div_mult_mod_eq)
  then have r: "d - d div 60 * 60 = d mod 60"
    by (simp add: algebra_simps)
  have "unat (d mod 60) < 256"
    by (simp add: unat_mod)
  then have s: "(ucast (ucast (d mod 60) :: u8) :: u16) = d mod 60"
    by (rule narrow_widen)
  show ?thesis
    by (simp only: m r s div_mult_mod_eq)
qed

lemma editMinutes_no_press:
  assumes "prevButtonState s = buttonState s" and "\<forall>i\<in>set ins. pina i AND 1 = 1"
    and "editMinutes s mins bl ins = Some (s', mins', rest)"
  shows "mins' = mins \<and> prevButtonState s' = buttonState s'
         \<and> set rest \<subseteq> set ins \<and> eeprom s' = eeprom s \<and> eeprom_writes s' = eeprom_writes s"
  using assms
proof (induction ins arbitrary: s bl)
  case Nil
  then show ?case by (simp split: if_splits)
next
  case (Cons i ins)
  show ?case
  proof (cases "buttonPressed s AND BUTTON_MODE = 0")
    case False
    with Cons.prems show ?thesis by simp
  next
    case True
    let ?s2 = "(updateButtons i s)\<lparr>exposureTime := ucast mins * 60\<rparr>"
    obtain s3 where s3: "updateDisplay (exposureTime ?s2) 255 (if bl < 512 then 1 else 0) ?s2
                           = Some s3"
      by (simp add: updateDisplay_Some)
    note f = updateDisplay_frame [OF s3]
    from Cons.prems(1,2) have np: "buttonPressed s3 AND BUTTON_START = 0"
      by (simp add: f no_start_press)
    have pb: "prevButtonState s3 = buttonState s3"
      by (simp add: f updateButtons_buttons)
    from Cons.prems(3) True s3 np
    have "editMinutes s3 mins ((bl + 2) AND 1023) ins = Some (s', mins', rest)"
      by (simp add: Let_def)
    from Cons.IH [OF pb _ this] Cons.prems(2) show ?thesis
      by (auto simp add: f updateButtons_frame)
  qed
qed

lemma editSeconds_no_press:
  assumes "prevButtonState s = buttonState s" and "\<forall>i\<in>set ins. pina i AND 1 = 1"
    and "editSeconds s mins secs bl ins = Some (s', secs', rest)"
    and "exposureTime s = ucast mins * 60 + ucast secs \<or> buttonPressed s AND BUTTON_MODE = 0"
  shows "exposureTime s' = ucast mins * 60 + ucast secs \<and> secs' = secs
         \<and> eeprom s' = eeprom s \<and> eeprom_writes s' = eeprom_writes s"
  using assms
proof (induction ins arbitrary: s bl)
  case Nil
  then show ?case by (auto split: if_splits)
next
  case (Cons i ins)
  show ?case
  proof (cases "buttonPressed s AND BUTTON_MODE = 0")
    case False
    with Cons.prems show ?thesis by simp
  next
    case True
    let ?s2 = "(updateButtons i s)\<lparr>exposureTime := ucast mins * 60 + ucast secs\<rparr>"
    obtain s3 where s3: "updateDisplay (exposureTime ?s2) 255 (if bl < 512 then 7 else 1) ?s2
                           = Some s3"
      by (simp add: updateDisplay_Some)
    note f = updateDisplay_frame [OF s3]
    from Cons.prems(1,2) have np: "buttonPressed s3 AND BUTTON_START = 0"
      by (simp add: f no_start_press)
    have pb: "prevButtonState s3 = buttonState s3"
      by (simp add: f updateButtons_buttons)
    have ex: "exposureTime s3 = ucast mins * 60 + ucast secs
              \<or> buttonPressed s3 AND BUTTON_MODE = 0"
      by (simp add: f)
    from Cons.prems(3) True s3 np
    have "editSeconds s3 mins secs ((bl + 2) AND 1023) ins = Some (s', secs', rest)"
      by (simp add: Let_def)
    from Cons.IH [OF pb _ this ex] Cons.prems(2) show ?thesis
      by (auto simp add: f updateButtons_frame)
  qed
qed

text \<open>
  With no Start press during time setup, committing both phases persists the duration
  the setup was entered with.
\<close>

lemma timeSetup_round_trip:
  assumes d: "unat (exposureTime s) \<le> 599" and p: "prevButtonState s = buttonState s"
    and u: "\<forall>i\<in>set ins. pina i AND 1 = 1"
    and t: "timeSetup s ins = Some (s', rest)"
  shows "eeprom s' = exposureTime s \<and> exposureTime s' = exposureTime s
         \<and> eeprom_writes s' = Suc (eeprom_writes s)"
proof -
  let ?mins = "ucast (exposureTime s div 60) :: u8"
  let ?secs = "ucast (exposureTime s - ucast ?mins * 60) :: u8"
  from t obtain s1 mins1 ins1 s2 secs2 ins2 where
    m: "editMinutes s ?mins 512 ins = Some (s1, mins1, ins1)"
    and e: "editSeconds (s1\<lparr>buttonPressed := 0\<rparr>) mins1 ?secs 0 ins1 = Some (s2, secs2, ins2)"
    and w: "waitUntilButtonsReleased (writeConfig s2) ins2 = Some (s', rest)"
    by (auto simp add: timeSetup_def Let_def split: option.splits)
  from editMinutes_no_press [OF p u m]
  have m1: "mins1 = ?mins" "prevButtonState s1 = buttonState s1" "set ins1 \<subseteq> set ins"
    "eeprom_writes s1 = eeprom_writes s" by simp_all
  from m1(3) u have u1: "\<forall>i\<in>set ins1. pina i AND 1 = 1" by blast
  have p1: "prevButtonState (s1\<lparr>buttonPressed := 0\<rparr>) = buttonState (s1\<lparr>buttonPressed := 0\<rparr>)"
    using m1(2) by simp
  have c1: "exposureTime (s1\<lparr>buttonPressed := 0\<rparr>) = ucast mins1 * 60 + ucast ?secs
            \<or> buttonPressed (s1\<lparr>buttonPressed := 0\<rparr>) AND BUTTON_MODE = 0"
    by simp
  from editSeconds_no_press [OF p1 u1 e c1] m1(1,4)
  have "exposureTime s2 = ucast ?mins * 60 + ucast ?secs"
    and ew: "eeprom_writes s2 = eeprom_writes s" by simp_all
  with split_duration [OF d] have x: "exposureTime s2 = exposureTime s" by simp
  from wait_frame [OF w] x ew show ?thesis
    by (simp add: writeConfig_def)
qed

end
